theory Spec2Isabelle
  imports Complex_Main "HOL-Library.Word"
begin

section \<open>JavaScript numbers\<close>

text \<open>
  The engine computes with JavaScript numbers: IEEE 754 binary64 values. The values are
  the finite numbers, the two zeros, the two infinities and \<open>NaN\<close>. A finite number is
  modelled by the real it denotes; \<open>Fin 0\<close> is the zero of positive sign and \<open>NegZero\<close>
  the zero of negative sign.

  The result of an arithmetic operation is the exact result rounded to the nearest
  binary64 value, ties to the even significand (\<open>toDouble\<close>). For an exact result of
  magnitude \<open>2^-1022\<close> or more the significand has 53 bits: \<open>ulp x\<close> is the power of two
  \<open>u\<close> with \<open>2^52 * u \<le> x < 2^53 * u\<close>, and \<open>round53\<close> rounds to a multiple of it. A
  result that rounds to \<open>2^1024\<close> or more in magnitude is an infinity. Below \<open>2^-1022\<close> the
  values are the multiples of \<open>2^-1074\<close> (the subnormal numbers), and a result that
  rounds to zero keeps its sign.
\<close>

function ulp :: "real \<Rightarrow> real" where
  "ulp x = (if x \<le> 0 then 0
            else if x < 1 then ulp (2 * x) / 2
            else if 2 \<le> x then 2 * ulp (x / 2)
            else 1 / 2 ^ 52)"
  by pat_completeness auto
termination
proof (relation "measure (\<lambda>x. nat \<bar>\<lfloor>log 2 x\<rfloor>\<bar>)")
  show "wf (measure (\<lambda>x. nat \<bar>\<lfloor>log 2 x\<rfloor>\<bar>))" by simp
next
  fix x :: real
  assume a: "\<not> x \<le> 0" "x < 1"
  have l: "log 2 (2 * x) = log 2 x + 1"
    using a by (simp add: log_mult)
  have "log 2 x < 0" using a by simp
  then have "\<lfloor>log 2 x\<rfloor> \<le> -1" by linarith
  then show "(2 * x, x) \<in> measure (\<lambda>x. nat \<bar>\<lfloor>log 2 x\<rfloor>\<bar>)"
    by (simp add: l)
next
  fix x :: real
  assume a: "\<not> x \<le> 0" "\<not> x < 1" "2 \<le> x"
  have l: "log 2 (x / 2) = log 2 x - 1"
    using a by (simp add: log_divide)
  have "1 \<le> log 2 x" using a by (simp add: le_log_iff)
  then have "1 \<le> \<lfloor>log 2 x\<rfloor>" by linarith
  then show "(x / 2, x) \<in> measure (\<lambda>x. nat \<bar>\<lfloor>log 2 x\<rfloor>\<bar>)"
    by (simp add: l)
qed

declare ulp.simps [simp del]

definition roundEven :: "real \<Rightarrow> int" where
  "roundEven m =
    (let f = \<lfloor>m\<rfloor>
     in if m - of_int f < 1 / 2 then f
        else if 1 / 2 < m - of_int f then f + 1
        else if even f then f else f + 1)"

definition round53 :: "real \<Rightarrow> real" where
  "round53 x = (if x = 0 then 0 else of_int (roundEven (x / ulp \<bar>x\<bar>)) * ulp \<bar>x\<bar>)"

datatype jsnum = Fin real | NegZero | PInf | NInf | NaN

fun isFinite :: "jsnum \<Rightarrow> bool" where
  "isFinite (Fin a) = True"
| "isFinite NegZero = True"
| "isFinite _ = False"

text \<open>The real that a finite number denotes, and the sign bit of a number.\<close>

fun valueOf :: "jsnum \<Rightarrow> real" where
  "valueOf (Fin a) = a"
| "valueOf _ = 0"

fun signBit :: "jsnum \<Rightarrow> bool" where
  "signBit (Fin a) = (a < 0)"
| "signBit NegZero = True"
| "signBit NInf = True"
| "signBit _ = False"

definition zero :: "bool \<Rightarrow> jsnum" where
  "zero negative = (if negative then NegZero else Fin 0)"

definition infinity :: "bool \<Rightarrow> jsnum" where
  "infinity negative = (if negative then NInf else PInf)"

text \<open>
  The binary64 value nearest to the real \<open>x\<close>. \<open>negative\<close> is the sign that the result
  takes when \<open>x\<close> is zero.
\<close>

definition toDouble :: "bool \<Rightarrow> real \<Rightarrow> jsnum" where
  "toDouble negative x =
    (if \<bar>x\<bar> < 1 / 2 ^ 1022
     then (let r = of_int (roundEven (x * 2 ^ 1074)) / 2 ^ 1074
           in if r = 0 then zero (x < 0 \<or> x = 0 \<and> negative) else Fin r)
     else (let r = round53 x
           in if 2 ^ 1024 \<le> \<bar>r\<bar> then infinity (x < 0) else Fin r))"

text \<open>The value of a decimal literal of the source.\<close>

definition literal :: "real \<Rightarrow> jsnum" where
  "literal x = toDouble False x"

fun neg :: "jsnum \<Rightarrow> jsnum" where
  "neg (Fin a) = (if a = 0 then NegZero else Fin (- a))"
| "neg NegZero = Fin 0"
| "neg PInf = NInf"
| "neg NInf = PInf"
| "neg NaN = NaN"

text \<open>
  Arithmetic never throws. A sum that is exactly zero is \<open>-0\<close> only when both terms are
  negative zeros; the sign of a product or a quotient is the exclusive or of the signs of
  its operands; a division by a zero yields an infinity, or \<open>NaN\<close> for \<open>0 / 0\<close>; every
  comparison with \<open>NaN\<close> is false, and the two zeros compare equal.
\<close>

instantiation jsnum :: "{plus, minus, times, inverse, ord}"
begin

fun plus_jsnum :: "jsnum \<Rightarrow> jsnum \<Rightarrow> jsnum" where
  "plus_jsnum NaN _ = NaN"
| "plus_jsnum _ NaN = NaN"
| "plus_jsnum PInf NInf = NaN"
| "plus_jsnum NInf PInf = NaN"
| "plus_jsnum PInf _ = PInf"
| "plus_jsnum _ PInf = PInf"
| "plus_jsnum NInf _ = NInf"
| "plus_jsnum _ NInf = NInf"
| "plus_jsnum a b = toDouble (signBit a \<and> signBit b) (valueOf a + valueOf b)"

definition minus_jsnum :: "jsnum \<Rightarrow> jsnum \<Rightarrow> jsnum" where
  "minus_jsnum a b = a + neg b"

fun times_jsnum :: "jsnum \<Rightarrow> jsnum \<Rightarrow> jsnum" where
  "times_jsnum NaN _ = NaN"
| "times_jsnum _ NaN = NaN"
| "times_jsnum a b =
     (if isFinite a \<and> isFinite b
      then toDouble (signBit a \<noteq> signBit b) (valueOf a * valueOf b)
      else if (isFinite a \<and> valueOf a = 0) \<or> (isFinite b \<and> valueOf b = 0) then NaN
      else infinity (signBit a \<noteq> signBit b))"

fun divide_jsnum :: "jsnum \<Rightarrow> jsnum \<Rightarrow> jsnum" where
  "divide_jsnum NaN _ = NaN"
| "divide_jsnum _ NaN = NaN"
| "divide_jsnum a b =
     (if isFinite a
      then (if isFinite b
            then (if valueOf b = 0
                  then (if valueOf a = 0 then NaN else infinity (signBit a \<noteq> signBit b))
                  else toDouble (signBit a \<noteq> signBit b) (valueOf a / valueOf b))
            else zero (signBit a \<noteq> signBit b))
      else if isFinite b then infinity (signBit a \<noteq> signBit b) else NaN)"

definition inverse_jsnum :: "jsnum \<Rightarrow> jsnum" where
  "inverse_jsnum a = divide (Fin 1) a"

fun less_jsnum :: "jsnum \<Rightarrow> jsnum \<Rightarrow> bool" where
  "less_jsnum NaN _ = False"
| "less_jsnum _ NaN = False"
| "less_jsnum _ NInf = False"
| "less_jsnum PInf _ = False"
| "less_jsnum NInf _ = True"
| "less_jsnum _ PInf = True"
| "less_jsnum a b = (valueOf a < valueOf b)"

fun less_eq_jsnum :: "jsnum \<Rightarrow> jsnum \<Rightarrow> bool" where
  "less_eq_jsnum NaN _ = False"
| "less_eq_jsnum _ NaN = False"
| "less_eq_jsnum NInf _ = True"
| "less_eq_jsnum _ PInf = True"
| "less_eq_jsnum _ NInf = False"
| "less_eq_jsnum PInf _ = False"
| "less_eq_jsnum a b = (valueOf a \<le> valueOf b)"

instance ..

end

text \<open>
  \<open>Math.max\<close> and \<open>Math.min\<close>: \<open>NaN\<close> if an argument is \<open>NaN\<close>; the zero of positive sign
  is the larger of the two zeros.
\<close>

fun Math_max :: "jsnum \<Rightarrow> jsnum \<Rightarrow> jsnum" where
  "Math_max NaN _ = NaN"
| "Math_max _ NaN = NaN"
| "Math_max a b = (if a < b then b else if b < a then a else if a = NegZero then b else a)"

fun Math_min :: "jsnum \<Rightarrow> jsnum \<Rightarrow> jsnum" where
  "Math_min NaN _ = NaN"
| "Math_min _ NaN = NaN"
| "Math_min a b = (if a < b then a else if b < a then b else if b = NegZero then b else a)"

fun Math_abs :: "jsnum \<Rightarrow> jsnum" where
  "Math_abs (Fin a) = Fin \<bar>a\<bar>"
| "Math_abs NegZero = Fin 0"
| "Math_abs NaN = NaN"
| "Math_abs _ = PInf"

section \<open>Coordinate transformation engine (server/utils/coordinateTransform.js)\<close>

text \<open>
  An exception is a value. \<open>Error\<close> is an object the engine itself creates with
  \<open>throw new Error(...)\<close>; its message is the list of the parts of the template
  literal, interpolated numbers kept as numbers. \<open>LibraryError\<close> is an exception that
  comes out of a library call and that the engine does not catch.
\<close>

datatype msgpart = Str string | Num jsnum

datatype error = Error "msgpart list" | LibraryError string

record rect =
  rect_x :: jsnum
  rect_y :: jsnum
  rect_width :: jsnum
  rect_height :: jsnum

record dims =
  dims_width :: jsnum
  dims_height :: jsnum

text \<open>
  Lines 26 to 55 of \<open>normalizeFrontendCoordinates\<close>: the contain-fit of the page in the
  container and the four quotients, before they are clamped.
\<close>

definition unclampedNormalized :: "rect \<Rightarrow> dims \<Rightarrow> dims \<Rightarrow> rect" where
  "unclampedNormalized frontendCoords containerSize pdfPageSize =
    (let frontendX = rect_x frontendCoords; frontendY = rect_y frontendCoords;
         frontendW = rect_width frontendCoords; frontendH = rect_height frontendCoords;
         containerWidth = dims_width containerSize; containerHeight = dims_height containerSize;
         pdfWidth = dims_width pdfPageSize; pdfHeight = dims_height pdfPageSize;
         pdfAspectRatio = pdfWidth / pdfHeight;
         containerAspectRatio = containerWidth / containerHeight;
         (scaleFactor, offsetX, offsetY) =
           (if pdfAspectRatio > containerAspectRatio
            then (containerWidth / pdfWidth, Fin 0,
                  (containerHeight - pdfHeight * (containerWidth / pdfWidth)) / Fin 2)
            else (containerHeight / pdfHeight,
                  (containerWidth - pdfWidth * (containerHeight / pdfHeight)) / Fin 2, Fin 0))
     in \<lparr> rect_x = (frontendX - offsetX) / scaleFactor / pdfWidth,
          rect_y = (frontendY - offsetY) / scaleFactor / pdfHeight,
          rect_width = frontendW / scaleFactor / pdfWidth,
          rect_height = frontendH / scaleFactor / pdfHeight \<rparr>)"

definition clampUnit :: "jsnum \<Rightarrow> jsnum" where
  "clampUnit v = Math_max (Fin 0) (Math_min (Fin 1) v)"

text \<open>
  An argument that is \<open>null\<close> or \<open>undefined\<close> is \<open>None\<close>; the first statement of the
  function throws on it.
\<close>

definition missingParameters :: error where
  "missingParameters = Error [Str ''Missing required parameters for coordinate normalization'']"

definition normalizeFrontendCoordinates ::
  "rect option \<Rightarrow> dims option \<Rightarrow> dims option \<Rightarrow> error + rect" where
  "normalizeFrontendCoordinates frontendCoords containerSize pdfPageSize =
    (case (frontendCoords, containerSize, pdfPageSize) of
       (Some f, Some c, Some p) \<Rightarrow>
         (let n = unclampedNormalized f c p
          in Inr \<lparr> rect_x = clampUnit (rect_x n), rect_y = clampUnit (rect_y n),
                    rect_width = clampUnit (rect_width n),
                    rect_height = clampUnit (rect_height n) \<rparr>)
     | _ \<Rightarrow> Inl missingParameters)"

definition normalizedToPDFPoints :: "rect \<Rightarrow> dims \<Rightarrow> rect" where
  "normalizedToPDFPoints normalized pdfPageSize =
    (let x = rect_x normalized; y = rect_y normalized;
         width = rect_width normalized; height = rect_height normalized;
         pdfWidth = dims_width pdfPageSize; pdfHeight = dims_height pdfPageSize;
         pointX = x * pdfWidth;
         pointWidth = width * pdfWidth;
         pointHeight = height * pdfHeight;
         pointY = pdfHeight - ((y + height) * pdfHeight)
     in \<lparr> rect_x = pointX, rect_y = pointY, rect_width = pointWidth,
          rect_height = pointHeight \<rparr>)"

text \<open>
  The result object of \<open>transformFrontendToPDF\<close> spreads the four point fields and adds
  the field \<open>normalized\<close>. Once the normalization has returned, the page size is
  present; the last branch of the definition is never taken.
\<close>

record pdfCoordinates =
  pdf_points :: rect
  pdf_normalized :: rect

definition transformFrontendToPDF ::
  "rect option \<Rightarrow> dims option \<Rightarrow> dims option \<Rightarrow> error + pdfCoordinates" where
  "transformFrontendToPDF frontendCoords containerSize pdfPageSize =
    (case normalizeFrontendCoordinates frontendCoords containerSize pdfPageSize of
       Inl e \<Rightarrow> Inl e
     | Inr n \<Rightarrow>
        (case pdfPageSize of
           Some p \<Rightarrow> Inr \<lparr> pdf_points = normalizedToPDFPoints n p, pdf_normalized = n \<rparr>
         | None \<Rightarrow> Inl missingParameters))"

definition transformPDFToFrontend :: "rect \<Rightarrow> dims \<Rightarrow> dims \<Rightarrow> rect" where
  "transformPDFToFrontend pdfCoords containerSize pdfPageSize =
    (let pdfX = rect_x pdfCoords; pdfY = rect_y pdfCoords;
         pdfW = rect_width pdfCoords; pdfH = rect_height pdfCoords;
         containerWidth = dims_width containerSize; containerHeight = dims_height containerSize;
         pdfWidth = dims_width pdfPageSize; pdfHeight = dims_height pdfPageSize;
         pdfAspectRatio = pdfWidth / pdfHeight;
         containerAspectRatio = containerWidth / containerHeight;
         (scaleFactor, offsetX, offsetY) =
           (if pdfAspectRatio > containerAspectRatio
            then (containerWidth / pdfWidth, Fin 0,
                  (containerHeight - pdfHeight * (containerWidth / pdfWidth)) / Fin 2)
            else (containerHeight / pdfHeight,
                  (containerWidth - pdfWidth * (containerHeight / pdfHeight)) / Fin 2, Fin 0));
         normalizedX = pdfX / pdfWidth;
         normalizedY = pdfHeight - (pdfY + pdfH);
         normalizedY_top = normalizedY / pdfHeight
     in \<lparr> rect_x = normalizedX * pdfWidth * scaleFactor + offsetX,
          rect_y = normalizedY_top * pdfHeight * scaleFactor + offsetY,
          rect_width = pdfW * scaleFactor,
          rect_height = pdfH * scaleFactor \<rparr>)"

definition isValidNormalizedCoordinate :: "rect \<Rightarrow> bool" where
  "isValidNormalizedCoordinate normalized =
    (let x = rect_x normalized; y = rect_y normalized;
         width = rect_width normalized; height = rect_height normalized
     in x \<ge> Fin 0 \<and> x \<le> Fin 1 \<and>
        y \<ge> Fin 0 \<and> y \<le> Fin 1 \<and>
        width > Fin 0 \<and> width \<le> Fin 1 \<and>
        height > Fin 0 \<and> height \<le> Fin 1 \<and>
        x + width \<le> Fin 1 \<and>
        y + height \<le> Fin 1)"


section \<open>PDF signature burn-in engine (pdfSigner.js)\<close>

record fitResult =
  fit_width :: jsnum
  fit_height :: jsnum
  fit_offsetX :: jsnum
  fit_offsetY :: jsnum

definition calculateFitDimensions :: "jsnum \<Rightarrow> jsnum \<Rightarrow> jsnum \<Rightarrow> jsnum \<Rightarrow> fitResult" where
  "calculateFitDimensions imageWidth imageHeight boxWidth boxHeight =
    (let imageAspectRatio = imageWidth / imageHeight;
         boxAspectRatio = boxWidth / boxHeight;
         (fitWidth, fitHeight) =
           (if imageAspectRatio > boxAspectRatio
            then (boxWidth, boxWidth / imageAspectRatio)
            else (boxHeight * imageAspectRatio, boxHeight));
         offsetX = (boxWidth - fitWidth) / Fin 2;
         offsetY = (boxHeight - fitHeight) / Fin 2
     in \<lparr> fit_width = fitWidth, fit_height = fitHeight,
          fit_offsetX = offsetX, fit_offsetY = offsetY \<rparr>)"

subsection \<open>The libraries and the process environment\<close>

text \<open>
  \<open>pdf-lib\<close>, \<open>crypto\<close> and \<open>Buffer\<close> are not part of the repository; their calls are
  parameters of the model, and a call that throws returns the message on the left.
  A parsed document is the list of its pages and its modification date; a page is its
  size and the sequence of drawing operations of its content; an embedded image carries
  the dimensions that \<open>image.scale(1)\<close> returns. The parser and the serialiser receive
  the reading of the wall clock at the time of the call, since a library may write it
  into the document. The two drawing calls receive the page and the options object, and
  may reject the options. The environment variable \<open>DEBUG_SIGNATURE_BOX\<close> is a parameter
  as well.
\<close>

type_synonym bytes = "8 word list"

datatype decoder = PngDecoder | JpegDecoder

record pdfImage =
  image_decoder :: decoder
  image_bytes :: bytes
  image_width :: jsnum
  image_height :: jsnum

datatype drawop =
    DrawImage pdfImage jsnum jsnum jsnum jsnum
  | DrawRectangle jsnum jsnum jsnum jsnum

record pdfPage =
  page_size :: dims
  page_content :: "drawop list"

record pdfDocument =
  doc_pages :: "pdfPage list"
  doc_modificationDate :: string

record runtime =
  PDFDocument_load :: "string \<Rightarrow> bytes \<Rightarrow> string + pdfDocument"
  embedPng :: "bytes \<Rightarrow> string + pdfImage"
  embedJpeg :: "bytes \<Rightarrow> string + pdfImage"
  page_drawImage :: "pdfPage \<Rightarrow> pdfImage \<Rightarrow> rect \<Rightarrow> string + pdfPage"
  page_drawRectangle :: "pdfPage \<Rightarrow> rect \<Rightarrow> string + pdfPage"
  PDFDocument_save :: "string \<Rightarrow> pdfDocument \<Rightarrow> bytes"
  sha256_hex :: "bytes \<Rightarrow> string"
  Buffer_from_base64 :: "string \<Rightarrow> bytes"
  env_DEBUG_SIGNATURE_BOX :: "string option"

subsection \<open>base64ToBuffer and computeSHA256\<close>

definition isWordChar :: "char \<Rightarrow> bool" where
  "isWordChar c =
    (c \<in> set ''abcdefghijklmnopqrstuvwxyzABCDEFGHIJKLMNOPQRSTUVWXYZ0123456789_'')"

fun stripPrefix :: "string \<Rightarrow> string \<Rightarrow> string option" where
  "stripPrefix [] s = Some s"
| "stripPrefix (p # ps) [] = None"
| "stripPrefix (p # ps) (c # cs) = (if p = c then stripPrefix ps cs else None)"

text \<open>
  The match of \<open>/^data:image\/(\w+);base64,(.*)$/\<close>: its second group, when the string
  matches. The dot matches no line terminator, of which the line feed and the carriage
  return are modelled.
\<close>

definition dataUriPayload :: "string \<Rightarrow> string option" where
  "dataUriPayload base64String =
    (case stripPrefix ''data:image/'' base64String of
       None \<Rightarrow> None
     | Some r \<Rightarrow>
        (if takeWhile isWordChar r = [] then None
         else (case stripPrefix '';base64,'' (dropWhile isWordChar r) of
                 None \<Rightarrow> None
               | Some payload \<Rightarrow>
                  (if CHR 0x0A \<in> set payload \<or> CHR 0x0D \<in> set payload then None
                   else Some payload))))"

definition base64ToBuffer :: "('a runtime_scheme) \<Rightarrow> string \<Rightarrow> bytes" where
  "base64ToBuffer rt base64String =
    (let cleanBase64 = (case dataUriPayload base64String of
                          Some payload \<Rightarrow> payload
                        | None \<Rightarrow> base64String)
     in Buffer_from_base64 rt cleanBase64)"

definition computeSHA256 :: "('a runtime_scheme) \<Rightarrow> bytes \<Rightarrow> string" where
  "computeSHA256 rt buffer = sha256_hex rt buffer"

subsection \<open>signPDF\<close>

type_synonym metadata = "(string \<times> string) list"

text \<open>
  The fields of \<open>signatureData\<close>. A field that may be absent is an option; an absent
  number among \<open>x\<close>, \<open>y\<close>, \<open>width\<close> and \<open>height\<close> behaves as \<open>NaN\<close> in the arithmetic.
\<close>

record signatureData =
  sig_image :: string
  sig_imageType :: "string option"
  sig_x :: jsnum
  sig_y :: jsnum
  sig_width :: jsnum
  sig_height :: jsnum
  sig_pageIndex :: "jsnum option"
  sig_metadata :: "metadata option"

record imageInfo =
  info_originalWidth :: jsnum
  info_originalHeight :: jsnum
  info_fitWidth :: jsnum
  info_fitHeight :: jsnum
  info_offsetX :: jsnum
  info_offsetY :: jsnum

record auditLog =
  log_timestamp :: string
  log_originalHash :: string
  log_signedHash :: string
  log_pageIndex :: jsnum
  log_pageSize :: dims
  log_signatureBox :: rect
  log_imageInfo :: imageInfo
  log_metadata :: metadata

record signResult =
  result_signedPDFBuffer :: bytes
  result_originalHash :: string
  result_signedHash :: string
  result_auditLog :: auditLog

text \<open>
  \<open>signatureData.pageIndex || 0\<close>: an absent index, the two zeros and \<open>NaN\<close> are falsy.
\<close>

fun orZero :: "jsnum option \<Rightarrow> jsnum" where
  "orZero None = Fin 0"
| "orZero (Some NaN) = Fin 0"
| "orZero (Some NegZero) = Fin 0"
| "orZero (Some (Fin a)) = (if a = 0 then Fin 0 else Fin a)"
| "orZero (Some v) = v"

definition invalidPageIndex :: "jsnum \<Rightarrow> nat \<Rightarrow> error" where
  "invalidPageIndex pageIndex totalPages =
    Error [Str ''Invalid page index: '', Num pageIndex, Str ''. Document has '',
           Num (Fin (real totalPages)), Str '' pages.'']"

text \<open>
  \<open>pdfDoc.getPage(pageIndex)\<close> followed by \<open>page.getSize()\<close>: an index that has passed
  the range check selects a page when it is an integer; any other index selects none,
  and one of the two calls throws.
\<close>

definition getPage :: "pdfDocument \<Rightarrow> jsnum \<Rightarrow> error + nat" where
  "getPage pdfDoc pageIndex =
    (case pageIndex of
       Fin a \<Rightarrow>
        (if a = of_int \<lfloor>a\<rfloor> \<and> 0 \<le> a \<and> nat \<lfloor>a\<rfloor> < length (doc_pages pdfDoc)
         then Inr (nat \<lfloor>a\<rfloor>)
         else Inl (LibraryError ''no page at this index''))
     | _ \<Rightarrow> Inl (LibraryError ''no page at this index''))"

fun String_includes :: "string \<Rightarrow> string \<Rightarrow> bool" where
  "String_includes [] sub = (sub = [])"
| "String_includes (c # cs) sub =
     (take (length sub) (c # cs) = sub \<or> String_includes cs sub)"

definition embedFailed :: "string \<Rightarrow> error" where
  "embedFailed message = Error [Str ''Failed to embed signature image: '', Str message]"

text \<open>
  Lines 108 to 126 of \<open>signPDF\<close>: the decoding of the image. The result comes with the
  decoders that were called, in the order of the calls.
\<close>

definition embedImage ::
  "('a runtime_scheme) \<Rightarrow> signatureData \<Rightarrow> bytes \<Rightarrow> decoder list \<times> (error + pdfImage)" where
  "embedImage rt signatureData imageBuffer =
    (if sig_imageType signatureData = Some ''png''
        \<or> String_includes (sig_image signatureData) ''png''
     then ([PngDecoder],
           (case embedPng rt imageBuffer of
              Inl message \<Rightarrow> Inl (embedFailed message)
            | Inr img \<Rightarrow> Inr img))
     else if sig_imageType signatureData = Some ''jpeg''
        \<or> String_includes (sig_image signatureData) ''jpeg''
     then ([JpegDecoder],
           (case embedJpeg rt imageBuffer of
              Inl message \<Rightarrow> Inl (embedFailed message)
            | Inr img \<Rightarrow> Inr img))
     else (case embedPng rt imageBuffer of
             Inr img \<Rightarrow> ([PngDecoder], Inr img)
           | Inl _ \<Rightarrow>
              ([PngDecoder, JpegDecoder],
               (case embedJpeg rt imageBuffer of
                  Inl message \<Rightarrow> Inl (embedFailed message)
                | Inr img \<Rightarrow> Inr img))))"

text \<open>
  Lines 128 to 199 of \<open>signPDF\<close>, once the page at position \<open>k\<close> and the image are there.
  \<open>now\<close> is the reading of the wall clock during the call: what
  \<open>new Date().toISOString()\<close> returns, and what the library calls see. The rectangle of
  the debugging aid is drawn with a red border of width 1. An exception of a drawing call
  is not caught.
\<close>

definition signatureBox :: "signatureData \<Rightarrow> rect" where
  "signatureBox signatureData =
    \<lparr> rect_x = sig_x signatureData, rect_y = sig_y signatureData,
      rect_width = sig_width signatureData, rect_height = sig_height signatureData \<rparr>"

definition drawAndSave ::
  "('a runtime_scheme) \<Rightarrow> string \<Rightarrow> string \<Rightarrow> pdfDocument \<Rightarrow> jsnum \<Rightarrow> nat \<Rightarrow> pdfImage
     \<Rightarrow> signatureData \<Rightarrow> error + signResult" where
  "drawAndSave rt now originalHash pdfDoc pageIndex k img signatureData =
    (let page = doc_pages pdfDoc ! k;
         pageWidth = dims_width (page_size page);
         pageHeight = dims_height (page_size page);
         imageWidth = image_width img;
         imageHeight = image_height img;
         fit = calculateFitDimensions imageWidth imageHeight
                 (sig_width signatureData) (sig_height signatureData);
         signX = sig_x signatureData + fit_offsetX fit;
         signY = sig_y signatureData + fit_offsetY fit
     in case page_drawImage rt page img
               \<lparr> rect_x = signX, rect_y = signY,
                 rect_width = fit_width fit, rect_height = fit_height fit \<rparr> of
          Inl message \<Rightarrow> Inl (LibraryError message)
        | Inr drawn \<Rightarrow>
           (case (if env_DEBUG_SIGNATURE_BOX rt = Some ''true''
                  then page_drawRectangle rt drawn (signatureBox signatureData)
                  else Inr drawn) of
              Inl message \<Rightarrow> Inl (LibraryError message)
            | Inr final \<Rightarrow>
               (let signedPDFBuffer =
                      PDFDocument_save rt now
                        (pdfDoc\<lparr>doc_pages := (doc_pages pdfDoc)[k := final]\<rparr>);
                    signedHash = computeSHA256 rt signedPDFBuffer
                in Inr \<lparr> result_signedPDFBuffer = signedPDFBuffer,
                     result_originalHash = originalHash,
                     result_signedHash = signedHash,
                     result_auditLog =
                       \<lparr> log_timestamp = now,
                         log_originalHash = originalHash,
                         log_signedHash = signedHash,
                         log_pageIndex = pageIndex,
                         log_pageSize =
                           \<lparr> dims_width = pageWidth, dims_height = pageHeight \<rparr>,
                         log_signatureBox = signatureBox signatureData,
                         log_imageInfo =
                           \<lparr> info_originalWidth = imageWidth,
                             info_originalHeight = imageHeight,
                             info_fitWidth = fit_width fit, info_fitHeight = fit_height fit,
                             info_offsetX = fit_offsetX fit,
                             info_offsetY = fit_offsetY fit \<rparr>,
                         log_metadata =
                           (case sig_metadata signatureData of
                              Some m \<Rightarrow> m | None \<Rightarrow> []) \<rparr> \<rparr>)))"

definition signPDF ::
  "('a runtime_scheme) \<Rightarrow> string \<Rightarrow> bytes \<Rightarrow> signatureData \<Rightarrow> error + signResult" where
  "signPDF rt now originalPDFBuffer signatureData =
    (let originalHash = computeSHA256 rt originalPDFBuffer
     in case PDFDocument_load rt now originalPDFBuffer of
          Inl message \<Rightarrow> Inl (LibraryError message)
        | Inr pdfDoc \<Rightarrow>
           (let totalPages = length (doc_pages pdfDoc);
                pageIndex = orZero (sig_pageIndex signatureData)
            in if pageIndex < Fin 0 \<or> pageIndex \<ge> Fin (real totalPages)
               then Inl (invalidPageIndex pageIndex totalPages)
               else (case getPage pdfDoc pageIndex of
                       Inl e \<Rightarrow> Inl e
                     | Inr k \<Rightarrow>
                        (let imageBuffer = base64ToBuffer rt (sig_image signatureData)
                         in case snd (embedImage rt signatureData imageBuffer) of
                              Inl e \<Rightarrow> Inl e
                            | Inr img \<Rightarrow>
                               drawAndSave rt now originalHash pdfDoc pageIndex k
                                 img signatureData))))"

subsection \<open>signPDFMultiple\<close>

record multiResult =
  multi_signedPDFBuffer :: bytes
  multi_originalHash :: string
  multi_signedHash :: string
  multi_auditTrail :: "auditLog list"

text \<open>
  The \<open>for\<close> loop over the signatures, with its two variables \<open>currentBuffer\<close> and
  \<open>auditTrail\<close>. \<open>clock i\<close> is the reading of the wall clock during the call of \<open>signPDF\<close>
  number \<open>i\<close>.
\<close>

fun signLoop ::
  "('a runtime_scheme) \<Rightarrow> (nat \<Rightarrow> string) \<Rightarrow> nat \<Rightarrow> bytes \<Rightarrow> auditLog list
     \<Rightarrow> signatureData list \<Rightarrow> error + (bytes \<times> auditLog list)" where
  "signLoop rt clock i currentBuffer auditTrail [] = Inr (currentBuffer, auditTrail)"
| "signLoop rt clock i currentBuffer auditTrail (sig # sigs) =
     (case signPDF rt (clock i) currentBuffer sig of
        Inl e \<Rightarrow> Inl e
      | Inr result \<Rightarrow>
         signLoop rt clock (Suc i) (result_signedPDFBuffer result)
           (auditTrail @ [result_auditLog result]) sigs)"

definition signPDFMultiple ::
  "('a runtime_scheme) \<Rightarrow> (nat \<Rightarrow> string) \<Rightarrow> bytes \<Rightarrow> signatureData list
     \<Rightarrow> error + multiResult" where
  "signPDFMultiple rt clock originalPDFBuffer signatures =
    (let originalHash = computeSHA256 rt originalPDFBuffer
     in case signLoop rt clock 0 originalPDFBuffer [] signatures of
          Inl e \<Rightarrow> Inl e
        | Inr (currentBuffer, auditTrail) \<Rightarrow>
           (let finalHash = computeSHA256 rt currentBuffer
            in Inr \<lparr> multi_signedPDFBuffer = currentBuffer,
                      multi_originalHash = originalHash,
                      multi_signedHash = finalHash,
                      multi_auditTrail = auditTrail \<rparr>))"

section \<open>Vocabulary of the properties\<close>

text \<open>A viewport or a page has positive dimensions: two finite numbers above zero.\<close>

definition positiveDims :: "dims \<Rightarrow> bool" where
  "positiveDims d =
    (isFinite (dims_width d) \<and> isFinite (dims_height d) \<and>
     Fin 0 < dims_width d \<and> Fin 0 < dims_height d)"

text \<open>The two dimensions of a viewport or of a page lie between two bounds.\<close>

definition dimsBetween :: "real \<Rightarrow> real \<Rightarrow> dims \<Rightarrow> bool" where
  "dimsBetween lo hi d =
    (Fin lo \<le> dims_width d \<and> dims_width d \<le> Fin hi \<and>
     Fin lo \<le> dims_height d \<and> dims_height d \<le> Fin hi)"

definition finiteRect :: "rect \<Rightarrow> bool" where
  "finiteRect r =
    (isFinite (rect_x r) \<and> isFinite (rect_y r) \<and>
     isFinite (rect_width r) \<and> isFinite (rect_height r))"

text \<open>The four fields of a rectangle are at most \<open>B\<close> in absolute value.\<close>

definition rectWithin :: "real \<Rightarrow> rect \<Rightarrow> bool" where
  "rectWithin B r =
    (Math_abs (rect_x r) \<le> Fin B \<and> Math_abs (rect_y r) \<le> Fin B \<and>
     Math_abs (rect_width r) \<le> Fin B \<and> Math_abs (rect_height r) \<le> Fin B)"

definition noNaN :: "rect \<Rightarrow> bool" where
  "noNaN r =
    (rect_x r \<noteq> NaN \<and> rect_y r \<noteq> NaN \<and> rect_width r \<noteq> NaN \<and> rect_height r \<noteq> NaN)"

text \<open>
  Two numbers are finite and less than one unit apart; two rectangles are so in each of
  the four fields.
\<close>

definition lessThanOneApart :: "jsnum \<Rightarrow> jsnum \<Rightarrow> bool" where
  "lessThanOneApart a b = (isFinite a \<and> isFinite b \<and> \<bar>valueOf a - valueOf b\<bar> < 1)"

definition withinOne :: "rect \<Rightarrow> rect \<Rightarrow> bool" where
  "withinOne a b =
    (lessThanOneApart (rect_x a) (rect_x b) \<and>
     lessThanOneApart (rect_y a) (rect_y b) \<and>
     lessThanOneApart (rect_width a) (rect_width b) \<and>
     lessThanOneApart (rect_height a) (rect_height b))"

text \<open>What a clamped quotient can be: a number of the unit interval, or \<open>NaN\<close>.\<close>

definition unitOrNaN :: "jsnum \<Rightarrow> bool" where
  "unitOrNaN v = (if v = NaN then True else Fin 0 \<le> v \<and> v \<le> Fin 1)"

text \<open>The two conditions under which \<open>signPDF\<close> takes an encoding as declared.\<close>

definition declaredPng :: "signatureData \<Rightarrow> bool" where
  "declaredPng sd =
    (sig_imageType sd = Some ''png'' \<or> String_includes (sig_image sd) ''png'')"

definition declaredJpeg :: "signatureData \<Rightarrow> bool" where
  "declaredJpeg sd =
    (sig_imageType sd = Some ''jpeg'' \<or> String_includes (sig_image sd) ''jpeg'')"

text \<open>
  The options object that \<open>signPDF\<close> passes to \<open>page.drawImage\<close> (lines 134 to 150): the
  fitted image, centred in the box of the placement.
\<close>

definition imageOptions :: "pdfImage \<Rightarrow> signatureData \<Rightarrow> rect" where
  "imageOptions img sd =
    (let fit = calculateFitDimensions (image_width img) (image_height img)
                 (sig_width sd) (sig_height sd)
     in \<lparr> rect_x = sig_x sd + fit_offsetX fit, rect_y = sig_y sd + fit_offsetY fit,
          rect_width = fit_width fit, rect_height = fit_height fit \<rparr>)"

text \<open>The page indices that \<open>||\<close> takes as falsy.\<close>

definition falsyPageIndex :: "jsnum option \<Rightarrow> bool" where
  "falsyPageIndex p =
    (p = None \<or> p = Some (Fin 0) \<or> p = Some NegZero \<or> p = Some NaN)"

text \<open>A result with the timestamp of its audit log replaced.\<close>

definition atTime :: "string \<Rightarrow> signResult \<Rightarrow> signResult" where
  "atTime t r = r\<lparr>result_auditLog := (result_auditLog r)\<lparr>log_timestamp := t\<rparr>\<rparr>"

text \<open>
  The multi-placement variant in the words of the specification: a fold over the ordered
  placements that feeds the buffer of each step to the next one and collects the audit
  fragment of each step in order.
\<close>

fun overlayImages_spec ::
  "('a runtime_scheme) \<Rightarrow> (nat \<Rightarrow> string) \<Rightarrow> nat \<Rightarrow> bytes \<Rightarrow> signatureData list
     \<Rightarrow> error + (bytes \<times> auditLog list)" where
  "overlayImages_spec rt clock i documentBuffer [] = Inr (documentBuffer, [])"
| "overlayImages_spec rt clock i documentBuffer (placement # placements) =
     (case signPDF rt (clock i) documentBuffer placement of
        Inl e \<Rightarrow> Inl e
      | Inr step \<Rightarrow>
         (case overlayImages_spec rt clock (Suc i) (result_signedPDFBuffer step) placements of
            Inl e \<Rightarrow> Inl e
          | Inr (finalBuffer, fragments) \<Rightarrow>
             Inr (finalBuffer, result_auditLog step # fragments)))"

subsection \<open>A runtime for concrete evaluation\<close>

text \<open>
  Stand-ins for the libraries, used where a property is evaluated at a concrete input:
  a document has one page of 4 by 4 points per byte of its buffer, the serialiser writes
  for each page the number of its drawing operations, a PNG starts with the byte 0x89
  and a JPEG with 0xFF, every decoded image is 2 by 1 pixels, and a drawing call rejects
  options one of which is \<open>NaN\<close>. \<open>sampleRuntime\<close> does not look at the clock;
  \<open>stampingRuntime\<close> writes the time of the parse into the document as its modification
  date, and serialises that date in front of the pages.
\<close>

definition samplePage :: pdfPage where
  "samplePage =
    \<lparr> page_size = \<lparr> dims_width = Fin 4, dims_height = Fin 4 \<rparr>, page_content = [] \<rparr>"

definition sampleDraw :: "pdfPage \<Rightarrow> drawop \<Rightarrow> rect \<Rightarrow> string + pdfPage" where
  "sampleDraw page op options =
    (if noNaN options then Inr (page\<lparr>page_content := page_content page @ [op]\<rparr>)
     else Inl ''options must be of type number'')"

definition sampleRuntime :: runtime where
  "sampleRuntime =
    \<lparr> PDFDocument_load =
        (\<lambda>t b. if b = [] then Inl ''No PDF header found''
               else Inr \<lparr> doc_pages = map (\<lambda>_. samplePage) b,
                          doc_modificationDate = [] \<rparr>),
      embedPng =
        (\<lambda>b. if take 1 b = [0x89]
             then Inr \<lparr> image_decoder = PngDecoder, image_bytes = b,
                        image_width = Fin 2, image_height = Fin 1 \<rparr>
             else Inl ''not a PNG''),
      embedJpeg =
        (\<lambda>b. if take 1 b = [0xFF]
             then Inr \<lparr> image_decoder = JpegDecoder, image_bytes = b,
                        image_width = Fin 2, image_height = Fin 1 \<rparr>
             else Inl ''not a JPEG''),
      page_drawImage =
        (\<lambda>page img options.
           sampleDraw page
             (DrawImage img (rect_x options) (rect_y options) (rect_width options)
                (rect_height options)) options),
      page_drawRectangle =
        (\<lambda>page options.
           sampleDraw page
             (DrawRectangle (rect_x options) (rect_y options) (rect_width options)
                (rect_height options)) options),
      PDFDocument_save = (\<lambda>t d. map (\<lambda>p. of_nat (length (page_content p))) (doc_pages d)),
      sha256_hex = (\<lambda>b. map (\<lambda>w. if w = 0 then CHR ''0'' else CHR ''1'') b),
      Buffer_from_base64 =
        (\<lambda>s. if s = ''iVBOR'' then [0x89, 0x50]
             else if s = ''/9j/'' then [0xFF, 0xD8] else []),
      env_DEBUG_SIGNATURE_BOX = None \<rparr>"

definition stampingRuntime :: runtime where
  "stampingRuntime =
    sampleRuntime
      \<lparr> PDFDocument_load :=
          (\<lambda>t b. case PDFDocument_load sampleRuntime t b of
                   Inl message \<Rightarrow> Inl message
                 | Inr d \<Rightarrow> Inr (d\<lparr>doc_modificationDate := t\<rparr>)),
        PDFDocument_save :=
          (\<lambda>t d. map (\<lambda>c. of_nat (of_char c)) (doc_modificationDate d)
                   @ PDFDocument_save sampleRuntime t d) \<rparr>"

definition samplePlacement :: signatureData where
  "samplePlacement =
    \<lparr> sig_image = ''iVBOR'', sig_imageType = Some ''png'',
      sig_x = Fin 1, sig_y = Fin 1, sig_width = Fin 2, sig_height = Fin 2,
      sig_pageIndex = None, sig_metadata = None \<rparr>"

section \<open>Rounding\<close>

text \<open>
  The rounded value of \<open>x\<close> is within \<open>2^-53\<close> of \<open>x\<close>, relative to \<open>x\<close>, and has the sign
  of \<open>x\<close>.
\<close>

lemmas round53_eval = round53_def ulp.simps roundEven_def Let_def

lemma ulp_bounds:
  "0 < x \<Longrightarrow> 0 < ulp x \<and> 2 ^ 52 * ulp x \<le> x \<and> x < 2 ^ 53 * ulp x"
proof (induction x rule: ulp.induct)
  case (1 x)
  show ?case
  proof (cases "x < 1")
    case True
    then have e: "ulp x = ulp (2 * x) / 2"
      using "1.prems" by (subst ulp.simps) simp
    have "0 < ulp (2 * x) \<and> 2 ^ 52 * ulp (2 * x) \<le> 2 * x \<and> 2 * x < 2 ^ 53 * ulp (2 * x)"
      using "1.IH"(1) "1.prems" True by simp
    then show ?thesis unfolding e by simp
  next
    case False
    show ?thesis
    proof (cases "2 \<le> x")
      case True
      then have e: "ulp x = 2 * ulp (x / 2)"
        using "1.prems" False by (subst ulp.simps) simp
      have "0 < ulp (x / 2) \<and> 2 ^ 52 * ulp (x / 2) \<le> x / 2 \<and> x / 2 < 2 ^ 53 * ulp (x / 2)"
        using "1.IH"(2) "1.prems" False True by simp
      then show ?thesis unfolding e by simp
    next
      case b: False
      then have e: "ulp x = 1 / 2 ^ 52"
        using "1.prems" False by (subst ulp.simps) simp
      show ?thesis unfolding e using False b by simp
    qed
  qed
qed

lemma roundEven_error: "\<bar>of_int (roundEven m) - m\<bar> \<le> 1 / 2"
proof -
  have "of_int \<lfloor>m\<rfloor> \<le> m" "m < of_int \<lfloor>m\<rfloor> + 1"
    by linarith+
  then show ?thesis
    by (auto simp add: roundEven_def Let_def)
qed

lemma round53_error: "\<bar>round53 x - x\<bar> \<le> \<bar>x\<bar> / 2 ^ 53"
proof (cases "x = 0")
  case True
  then show ?thesis by (simp add: round53_def)
next
  case False
  define U where "U = ulp \<bar>x\<bar>"
  have U: "0 < U" "2 ^ 52 * U \<le> \<bar>x\<bar>"
    using ulp_bounds [of "\<bar>x\<bar>"] False by (simp_all add: U_def)
  have "round53 x - x = (of_int (roundEven (x / U)) - x / U) * U"
    using False U by (simp add: round53_def U_def field_simps)
  then have "\<bar>round53 x - x\<bar> = \<bar>of_int (roundEven (x / U)) - x / U\<bar> * U"
    using U by (simp add: abs_mult)
  also have "\<dots> \<le> 1 / 2 * U"
    using roundEven_error [of "x / U"] U by (intro mult_right_mono) simp_all
  also have "\<dots> \<le> \<bar>x\<bar> / 2 ^ 53"
    using U by simp
  finally show ?thesis .
qed

lemma round53_zero [simp]: "round53 0 = 0"
  by (simp add: round53_def)

lemma round53_error_num: "\<bar>round53 x - x\<bar> \<le> \<bar>x\<bar> / 9007199254740992"
  using round53_error [of x] by simp

lemma round53_between:
  "round53 x \<le> x + \<bar>x\<bar> / 9007199254740992" "x - \<bar>x\<bar> / 9007199254740992 \<le> round53 x"
  using round53_error_num [of x] by (simp_all only: abs_le_iff) linarith+

lemma round53_pos: "0 < x \<Longrightarrow> 0 < round53 x"
  using round53_between [of x] by simp

lemma round53_neg: "x < 0 \<Longrightarrow> round53 x < 0"
  using round53_between [of x] by simp

lemma round53_eq_0_iff [simp]: "(round53 x = 0) = (x = 0)"
proof (cases "x = 0")
  case True
  then show ?thesis by simp
next
  case False
  then have "round53 x \<noteq> 0"
    using round53_pos [of x] round53_neg [of x] by (cases "0 < x") auto
  then show ?thesis using False by simp
qed

lemma round53_pos_iff [simp]: "(0 < round53 x) = (0 < x)"
proof (cases "0 < x")
  case True
  then show ?thesis by (simp add: round53_pos)
next
  case False
  then have "round53 x \<le> 0"
    using round53_neg [of x] by (cases "x = 0") auto
  then show ?thesis using False by simp
qed

lemma round53_neg_iff [simp]: "(round53 x < 0) = (x < 0)"
proof (cases "x < 0")
  case True
  then show ?thesis by (simp add: round53_neg)
next
  case False
  then have "0 \<le> round53 x"
    using round53_pos [of x] by (cases "x = 0") (auto simp add: less_imp_le)
  then show ?thesis using False by simp
qed

lemma round53_nonneg_iff [simp]: "(0 \<le> round53 x) = (0 \<le> x)"
  using round53_neg_iff [of x] by (simp only: not_less [symmetric])

lemma round53_upper: "0 \<le> x \<Longrightarrow> round53 x \<le> x * (1 + 1 / 9007199254740992)"
  using round53_between [of x] by (simp add: algebra_simps)

lemma round53_lower: "0 \<le> x \<Longrightarrow> x * (1 - 1 / 9007199254740992) \<le> round53 x"
  using round53_between [of x] by (simp add: algebra_simps)

lemma round53_ratio_bounds:
  assumes "0 < x"
  shows "x * (9007199254740991 / 9007199254740992) \<le> round53 x"
    and "round53 x \<le> x * (9007199254740993 / 9007199254740992)"
  using round53_lower [of x] round53_upper [of x] assms by simp_all

section \<open>Rounding to a binary64 value\<close>

text \<open>
  In the normal range \<open>toDouble\<close> is the rounding to 53 bits; below it the error is at
  most half of \<open>2^-1074\<close>; the result is never \<open>NaN\<close> and has the sign of the exact value.
\<close>

lemmas toDouble_eval =
  toDouble_def literal_def zero_def infinity_def round53_def ulp.simps roundEven_def Let_def

lemma round53_abs_le: "\<bar>round53 a\<bar> \<le> \<bar>a\<bar> + \<bar>a\<bar> / 9007199254740992"
  using round53_error_num [of a] by linarith

lemma toDouble_normal:
  assumes "1 / 2 ^ 1022 \<le> \<bar>x\<bar>" and "\<bar>x\<bar> \<le> 2 ^ 1023"
  shows "toDouble s x = Fin (round53 x)"
proof -
  define M :: real where "M = 2 ^ 1023"
  have M: "0 < M" "2 ^ 1024 = 2 * M"
    by (simp_all add: M_def)
  have "\<bar>round53 x\<bar> \<le> \<bar>x\<bar> + \<bar>x\<bar> / 9007199254740992"
    by (rule round53_abs_le)
  moreover have "\<bar>x\<bar> \<le> M"
    using assms(2) by (simp add: M_def)
  ultimately have "\<bar>round53 x\<bar> < 2 * M"
    using M(1) by argo
  then have "\<not> 2 ^ 1024 \<le> \<bar>round53 x\<bar>"
    unfolding M(2) by simp
  moreover have "\<not> \<bar>x\<bar> < 1 / 2 ^ 1022"
    using assms(1) by simp
  ultimately show ?thesis
    unfolding toDouble_def Let_def by (simp only: if_False)
qed

lemma toDouble_tiny:
  assumes "\<bar>x\<bar> < 1 / 2 ^ 1022"
  shows "isFinite (toDouble s x)"
    and "\<bar>valueOf (toDouble s x) - x\<bar> \<le> 1 / 2 ^ 1075"
proof -
  define m where "m = x * 2 ^ 1074"
  define r :: real where "r = of_int (roundEven m) / 2 ^ 1074"
  have t: "toDouble s x = (if r = 0 then zero (x < 0 \<or> x = 0 \<and> s) else Fin r)"
    using assms unfolding toDouble_def Let_def r_def m_def by (simp only: if_True)
  show "isFinite (toDouble s x)"
    by (simp add: t zero_def)
  have v: "valueOf (toDouble s x) = r"
    by (simp add: t zero_def)
  have "\<bar>of_int (roundEven m) - m\<bar> \<le> 1 / 2"
    by (rule roundEven_error)
  then have "\<bar>of_int (roundEven m) - m\<bar> / 2 ^ 1074 \<le> (1 / 2) / 2 ^ 1074"
    by (intro divide_right_mono) simp_all
  moreover have "r - x = (of_int (roundEven m) - m) / 2 ^ 1074"
    by (simp add: r_def m_def diff_divide_distrib)
  ultimately have "\<bar>r - x\<bar> \<le> (1 / 2) / 2 ^ 1074"
    by (simp only: abs_divide) simp
  then show "\<bar>valueOf (toDouble s x) - x\<bar> \<le> 1 / 2 ^ 1075"
    by (simp add: v)
qed

lemma toDouble_finite:
  assumes "\<bar>x\<bar> \<le> 2 ^ 1023"
  shows "isFinite (toDouble s x)"
    and "\<bar>valueOf (toDouble s x) - x\<bar> \<le> \<bar>x\<bar> / 2 ^ 53 + 1 / 2 ^ 1075"
proof -
  have "isFinite (toDouble s x) \<and> \<bar>valueOf (toDouble s x) - x\<bar> \<le> \<bar>x\<bar> / 2 ^ 53 + 1 / 2 ^ 1075"
  proof (cases "\<bar>x\<bar> < 1 / 2 ^ 1022")
    case True
    have "0 \<le> \<bar>x\<bar> / 2 ^ 53" by simp
    then show ?thesis
      using toDouble_tiny [OF True, of s] by linarith
  next
    case False
    then have "toDouble s x = Fin (round53 x)"
      using assms by (intro toDouble_normal) simp_all
    moreover have "(0::real) \<le> 1 / 2 ^ 1075" by simp
    ultimately show ?thesis
      using round53_error [of x] by simp
  qed
  then show "isFinite (toDouble s x)"
    and "\<bar>valueOf (toDouble s x) - x\<bar> \<le> \<bar>x\<bar> / 2 ^ 53 + 1 / 2 ^ 1075"
    by simp_all
qed

lemma toDouble_not_NaN [simp]: "toDouble s x \<noteq> NaN"
  by (simp add: toDouble_def Let_def zero_def infinity_def)

lemma roundEven_nonneg: "0 \<le> m \<Longrightarrow> 0 \<le> roundEven m"
  by (simp add: roundEven_def Let_def)

lemma roundEven_nonpos: "m \<le> 0 \<Longrightarrow> roundEven m \<le> 0"
proof -
  assume m: "m \<le> 0"
  show ?thesis
  proof (cases "m = 0")
    case True
    then show ?thesis by (simp add: roundEven_def)
  next
    case False
    then have "m < 0" using m by simp
    then have "\<lfloor>m\<rfloor> \<le> - 1" by linarith
    then show ?thesis
      by (simp add: roundEven_def Let_def)
  qed
qed

lemma toDouble_cases:
  obtains (tiny_zero) b where "toDouble s x = zero b"
  | (tiny) k where "toDouble s x = Fin (of_int k / 2 ^ 1074)" and "k = roundEven (x * 2 ^ 1074)"
  | (overflow) "toDouble s x = infinity (x < 0)" and "x \<noteq> 0"
  | (normal) "toDouble s x = Fin (round53 x)" and "x \<noteq> 0"
proof (cases "\<bar>x\<bar> < 1 / 2 ^ 1022")
  case True
  then have "toDouble s x =
      (if of_int (roundEven (x * 2 ^ 1074)) / (2::real) ^ 1074 = 0
       then zero (x < 0 \<or> x = 0 \<and> s)
       else Fin (of_int (roundEven (x * 2 ^ 1074)) / 2 ^ 1074))"
    unfolding toDouble_def Let_def by (simp only: if_True)
  then show ?thesis
    using tiny_zero tiny by (cases "of_int (roundEven (x * 2 ^ 1074)) / (2::real) ^ 1074 = 0") auto
next
  case False
  have "(0::real) < 1 / 2 ^ 1022" by simp
  then have x: "x \<noteq> 0" using False by auto
  have "toDouble s x =
      (if 2 ^ 1024 \<le> \<bar>round53 x\<bar> then infinity (x < 0) else Fin (round53 x))"
    using False unfolding toDouble_def Let_def by (simp only: if_False)
  then show ?thesis
    using overflow normal x by (cases "2 ^ 1024 \<le> \<bar>round53 x\<bar>") auto
qed

lemma toDouble_nonneg: "0 \<le> x \<Longrightarrow> Fin 0 \<le> toDouble s x"
proof -
  assume x: "0 \<le> x"
  show ?thesis
  proof (cases rule: toDouble_cases [of s x])
    case (tiny_zero b)
    then show ?thesis by (simp add: zero_def)
  next
    case (tiny k)
    have "0 \<le> x * 2 ^ 1074" using x by simp
    then have "0 \<le> k" unfolding tiny(2) by (rule roundEven_nonneg)
    then have "(0::real) \<le> of_int k / 2 ^ 1074"
      by (intro divide_nonneg_pos) simp_all
    then show ?thesis by (simp only: tiny(1) less_eq_jsnum.simps valueOf.simps)
  next
    case overflow
    then show ?thesis using x by (simp add: infinity_def)
  next
    case normal
    then show ?thesis using x by simp
  qed
qed

lemma toDouble_nonpos: "x \<le> 0 \<Longrightarrow> toDouble s x \<le> Fin 0"
proof -
  assume x: "x \<le> 0"
  show ?thesis
  proof (cases rule: toDouble_cases [of s x])
    case (tiny_zero b)
    then show ?thesis by (simp add: zero_def)
  next
    case (tiny k)
    have "x * 2 ^ 1074 \<le> 0" using x by (simp add: mult_le_0_iff)
    then have "k \<le> 0" unfolding tiny(2) by (rule roundEven_nonpos)
    then have "of_int k / 2 ^ 1074 \<le> (0::real)"
      by (intro divide_nonpos_pos) simp_all
    then show ?thesis by (simp only: tiny(1) less_eq_jsnum.simps valueOf.simps)
  next
    case overflow
    then show ?thesis using x by (simp add: infinity_def)
  next
    case normal
    then show ?thesis using x by (simp add: not_less [symmetric])
  qed
qed

lemma toDouble_pos: "1 / 2 ^ 1022 \<le> x \<Longrightarrow> Fin 0 < toDouble s x"
proof -
  assume a: "1 / 2 ^ 1022 \<le> x"
  have "(0::real) < 1 / 2 ^ 1022" by simp
  then have x: "0 < x" using a by linarith
  then have "\<not> \<bar>x\<bar> < 1 / 2 ^ 1022" using a by simp
  then have "toDouble s x =
      (if 2 ^ 1024 \<le> \<bar>round53 x\<bar> then infinity (x < 0) else Fin (round53 x))"
    unfolding toDouble_def Let_def by (simp only: if_False)
  then show ?thesis
    using x by (simp add: infinity_def)
qed

lemma normal_by_bounds:
  fixes x :: real
  assumes "lo \<le> x" and "x \<le> hi" and "1 / 2 ^ 1022 \<le> lo" and "hi \<le> 2 ^ 1023"
  shows "1 / 2 ^ 1022 \<le> \<bar>x\<bar>" and "\<bar>x\<bar> \<le> 2 ^ 1023"
proof -
  have "(0::real) < 1 / 2 ^ 1022" by simp
  then have "0 < x" using assms(1,3) by linarith
  then have "\<bar>x\<bar> = x" by simp
  then show "1 / 2 ^ 1022 \<le> \<bar>x\<bar>" and "\<bar>x\<bar> \<le> 2 ^ 1023"
    using assms by linarith+
qed

section \<open>Arithmetic on finite numbers\<close>

lemma isFinite_iff: "isFinite v = ((\<exists>a. v = Fin a) \<or> v = NegZero)"
  by (cases v) simp_all

lemma neg_finite: "isFinite v \<Longrightarrow> isFinite (neg v) \<and> valueOf (neg v) = - valueOf v"
  by (cases v) simp_all

text \<open>An operation on finite numbers is the rounding of the exact result.\<close>

lemma add_finite:
  "isFinite u \<Longrightarrow> isFinite v \<Longrightarrow>
     u + v = toDouble (signBit u \<and> signBit v) (valueOf u + valueOf v)"
  by (cases u; cases v) simp_all

lemma sub_finite:
  "isFinite u \<Longrightarrow> isFinite v \<Longrightarrow>
     u - v = toDouble (signBit u \<and> signBit (neg v)) (valueOf u - valueOf v)"
  using add_finite [of u "neg v"] neg_finite [of v] by (simp add: minus_jsnum_def)

lemma mul_finite:
  "isFinite u \<Longrightarrow> isFinite v \<Longrightarrow>
     u * v = toDouble (signBit u \<noteq> signBit v) (valueOf u * valueOf v)"
  by (cases u; cases v) simp_all

lemma div_finite:
  "isFinite u \<Longrightarrow> isFinite v \<Longrightarrow> valueOf v \<noteq> 0 \<Longrightarrow>
     u / v = toDouble (signBit u \<noteq> signBit v) (valueOf u / valueOf v)"
  by (cases u; cases v) simp_all

text \<open>In the normal range the result is the rounding to 53 bits.\<close>

lemma Fin_div_normal:
  assumes "b \<noteq> 0" and "1 / 2 ^ 1022 \<le> \<bar>a / b\<bar>" and "\<bar>a / b\<bar> \<le> 2 ^ 1023"
  shows "Fin a / Fin b = Fin (round53 (a / b))"
  using assms(1) toDouble_normal [OF assms(2,3)] by (simp add: div_finite)

lemma Fin_mul_normal:
  assumes "1 / 2 ^ 1022 \<le> \<bar>a * b\<bar>" and "\<bar>a * b\<bar> \<le> 2 ^ 1023"
  shows "Fin a * Fin b = Fin (round53 (a * b))"
  using toDouble_normal [OF assms] by (simp add: mul_finite)

text \<open>The clamp \<open>Math.max(0, Math.min(1, v))\<close>.\<close>

lemma clampUnit_range: "v \<noteq> NaN \<Longrightarrow> Fin 0 \<le> clampUnit v \<and> clampUnit v \<le> Fin 1"
  by (cases v) (simp_all add: clampUnit_def)

lemma clampUnit_unitOrNaN: "unitOrNaN (clampUnit v)"
  by (cases v) (simp_all add: clampUnit_def unitOrNaN_def)

lemma clampUnit_pos_iff: "(Fin 0 < clampUnit v) = (Fin 0 < v)"
  by (cases v) (simp_all add: clampUnit_def)

lemma clampUnit_nonpos: "v \<le> Fin 0 \<Longrightarrow> clampUnit v = Fin 0"
  by (cases v) (simp_all add: clampUnit_def)

lemma clampUnit_id:
  "clampUnit v = v \<Longrightarrow> v \<noteq> NaN \<Longrightarrow> \<exists>a. v = Fin a \<and> 0 \<le> a \<and> a \<le> 1"
  by (cases v) (simp_all add: clampUnit_def split: if_splits)

text \<open>Bounds in the order of the numbers, read on the reals.\<close>

lemma Fin_le_iff:
  "0 < lo \<Longrightarrow> (Fin lo \<le> v \<and> v \<le> Fin hi) = (\<exists>a. v = Fin a \<and> lo \<le> a \<and> a \<le> hi)"
  by (cases v) auto

lemma dimsBetween_iff:
  assumes "0 < lo"
  shows "dimsBetween lo hi d =
     (\<exists>w h. d = \<lparr>dims_width = Fin w, dims_height = Fin h\<rparr> \<and>
        lo \<le> w \<and> w \<le> hi \<and> lo \<le> h \<and> h \<le> hi)"
proof (cases d)
  case (fields dw dh)
  have "dimsBetween lo hi d =
      ((Fin lo \<le> dw \<and> dw \<le> Fin hi) \<and> (Fin lo \<le> dh \<and> dh \<le> Fin hi))"
    by (auto simp add: dimsBetween_def fields)
  then show ?thesis
    unfolding Fin_le_iff [OF assms] by (auto simp add: fields)
qed

lemma abs_le_iff_finite: "(Math_abs v \<le> Fin B) = (isFinite v \<and> \<bar>valueOf v\<bar> \<le> B)"
  by (cases v) simp_all

lemma rectWithin_iff:
  "rectWithin B r =
     (finiteRect r \<and> \<bar>valueOf (rect_x r)\<bar> \<le> B \<and> \<bar>valueOf (rect_y r)\<bar> \<le> B \<and>
      \<bar>valueOf (rect_width r)\<bar> \<le> B \<and> \<bar>valueOf (rect_height r)\<bar> \<le> B)"
  by (auto simp add: rectWithin_def finiteRect_def abs_le_iff_finite)

section \<open>Dimensions in the normal range\<close>

text \<open>
  Quotients and products of numbers between \<open>10^-100\<close> and \<open>10^100\<close>, and of such numbers
  with a rounded quotient of two of them, stay in the normal range.
\<close>

lemma quotient_bounds:
  fixes a b :: real
  assumes "0 < la" "la \<le> a" "a \<le> ua" "0 < lb" "lb \<le> b" "b \<le> ub"
  shows "la / ub \<le> a / b" and "a / b \<le> ua / lb" and "0 < a / b"
proof -
  have b: "0 < b" "0 < ub" "0 < a" using assms by linarith+
  show "la / ub \<le> a / b"
    using assms b by (intro frac_le) simp_all
  show "a / b \<le> ua / lb"
    using assms b by (intro frac_le) simp_all
  show "0 < a / b"
    using b by simp
qed

lemma product_bounds:
  fixes a b :: real
  assumes "0 < la" "la \<le> a" "a \<le> ua" "0 < lb" "lb \<le> b" "b \<le> ub"
  shows "la * lb \<le> a * b" and "a * b \<le> ua * ub" and "0 < a * b"
proof -
  have b: "0 < b" "0 < a" using assms by linarith+
  show "la * lb \<le> a * b"
    using assms b by (intro mult_mono) simp_all
  show "a * b \<le> ua * ub"
    using assms b by (intro mult_mono) simp_all
  show "0 < a * b"
    using b by simp
qed

lemma ratio_in_range:
  fixes a b :: real
  assumes "1 / 10 ^ 100 \<le> a" "a \<le> 10 ^ 100" "1 / 10 ^ 100 \<le> b" "b \<le> 10 ^ 100"
  shows "1 / 10 ^ 200 \<le> a / b" and "a / b \<le> 10 ^ 200"
    and "Fin a / Fin b = Fin (round53 (a / b))"
    and "1 / 10 ^ 201 \<le> round53 (a / b)" and "round53 (a / b) \<le> 10 ^ 201"
proof -
  have p: "(0::real) < 1 / 10 ^ 100" by simp
  have lo: "1 / 10 ^ 100 / 10 ^ 100 \<le> a / b" and hi: "a / b \<le> 10 ^ 100 / (1 / 10 ^ 100)"
    and pos: "0 < a / b"
    using quotient_bounds [OF p assms(1,2) p assms(3,4)] by blast+
  show 1: "1 / 10 ^ 200 \<le> a / b"
    using lo by simp
  show 2: "a / b \<le> 10 ^ 200"
    using hi by simp
  have "b \<noteq> 0" using assms(3) p by linarith
  moreover have "1 / 2 ^ 1022 \<le> \<bar>a / b\<bar>" "\<bar>a / b\<bar> \<le> 2 ^ 1023"
    by (rule normal_by_bounds [OF 1 2], simp, simp)+
  ultimately show "Fin a / Fin b = Fin (round53 (a / b))"
    by (rule Fin_div_normal)
  have r: "a / b * (9007199254740991 / 9007199254740992) \<le> round53 (a / b)"
    "round53 (a / b) \<le> a / b * (9007199254740993 / 9007199254740992)"
    using pos by (intro round53_ratio_bounds, simp)+
  show "1 / 10 ^ 201 \<le> round53 (a / b)"
    using r(1) 1 by simp
  show "round53 (a / b) \<le> 10 ^ 201"
    using r(2) 2 by simp
qed

section \<open>The contain-fit of the page in the container\<close>

text \<open>
  The scale factor times a page dimension is at most twice the corresponding dimension of
  the container, whichever branch the comparison of the rounded aspect ratios takes.
\<close>

lemma own_product:
  fixes c p :: real
  assumes "0 < c" and "0 < p"
  shows "p * round53 (c / p) \<le> 2 * c"
proof -
  have "round53 (c / p) \<le> c / p * (9007199254740993 / 9007199254740992)"
    using assms by (intro round53_ratio_bounds) simp
  then have "round53 (c / p) * p * 9007199254740992 \<le> c * 9007199254740993"
    using assms by (simp add: field_simps)
  then have "round53 (c / p) * p \<le> 2 * c"
    using assms by argo
  then show ?thesis by (simp add: mult.commute)
qed

lemma cross_product_wide:
  fixes a b c d :: real
  assumes "0 < a" "0 < b" "0 < c" "0 < d" and "round53 (a / b) \<le> round53 (c / d)"
  shows "d * round53 (a / c) \<le> 2 * b"
proof -
  define s where "s = round53 (a / c)"
  have "s \<le> a / c * (9007199254740993 / 9007199254740992)"
    unfolding s_def using assms by (intro round53_ratio_bounds) simp
  then have "s * c * 9007199254740992 \<le> a * 9007199254740993"
    using assms by (simp add: field_simps)
  then have "d * (s * c * 9007199254740992) \<le> d * (a * 9007199254740993)"
    using assms by (intro mult_left_mono) simp_all
  then have 1: "d * s * c * 9007199254740992 \<le> a * d * 9007199254740993"
    by (simp add: algebra_simps)
  have "a / b * (9007199254740991 / 9007199254740992) \<le> round53 (a / b)"
    using assms by (intro round53_ratio_bounds) simp
  moreover have "round53 (c / d) \<le> c / d * (9007199254740993 / 9007199254740992)"
    using assms by (intro round53_ratio_bounds) simp
  ultimately have "a / b * (9007199254740991 / 9007199254740992)
      \<le> c / d * (9007199254740993 / 9007199254740992)"
    using assms(5) by linarith
  then have 2: "a * d * 9007199254740991 \<le> b * c * 9007199254740993"
    using assms by (simp add: field_simps)
  have "0 < b * c" using assms by simp
  then have "d * s * c \<le> 2 * (b * c)"
    using 1 2 by argo
  then have "(d * s) * c \<le> (2 * b) * c"
    by (simp add: algebra_simps)
  then show ?thesis
    using assms by (simp add: s_def)
qed

lemma cross_product_tall:
  fixes a b c d :: real
  assumes "0 < a" "0 < b" "0 < c" "0 < d" and "round53 (c / d) \<le> round53 (a / b)"
  shows "c * round53 (b / d) \<le> 2 * a"
proof -
  define s where "s = round53 (b / d)"
  have "s \<le> b / d * (9007199254740993 / 9007199254740992)"
    unfolding s_def using assms by (intro round53_ratio_bounds) simp
  then have "s * d * 9007199254740992 \<le> b * 9007199254740993"
    using assms by (simp add: field_simps)
  then have "c * (s * d * 9007199254740992) \<le> c * (b * 9007199254740993)"
    using assms by (intro mult_left_mono) simp_all
  then have 1: "c * s * d * 9007199254740992 \<le> b * c * 9007199254740993"
    by (simp add: algebra_simps)
  have "c / d * (9007199254740991 / 9007199254740992) \<le> round53 (c / d)"
    using assms by (intro round53_ratio_bounds) simp
  moreover have "round53 (a / b) \<le> a / b * (9007199254740993 / 9007199254740992)"
    using assms by (intro round53_ratio_bounds) simp
  ultimately have "c / d * (9007199254740991 / 9007199254740992)
      \<le> a / b * (9007199254740993 / 9007199254740992)"
    using assms(5) by linarith
  then have 2: "b * c * 9007199254740991 \<le> a * d * 9007199254740993"
    using assms by (simp add: field_simps)
  have "0 < a * d" using assms by simp
  then have "c * s * d \<le> 2 * (a * d)"
    using 1 2 by argo
  then have "(c * s) * d \<le> (2 * a) * d"
    by (simp add: algebra_simps)
  then show ?thesis
    using assms by (simp add: s_def)
qed

text \<open>The offset that centres the page: half of a rounded difference.\<close>

lemma offset_finite:
  fixes c p s :: real
  assumes "1 / 10 ^ 100 \<le> c" "c \<le> 10 ^ 100"
    and "1 / 10 ^ 100 \<le> p" "p \<le> 10 ^ 100"
    and "1 / 10 ^ 201 \<le> s" "s \<le> 10 ^ 201"
    and "p * s \<le> 2 * c"
  shows "isFinite ((Fin c - Fin p * Fin s) / Fin 2)"
    and "\<bar>valueOf ((Fin c - Fin p * Fin s) / Fin 2)\<bar> \<le> 2 * c"
proof -
  define z where "z = round53 (p * s)"
  have pp: "(0::real) < 1 / 10 ^ 100" "(0::real) < 1 / 10 ^ 201" by simp_all
  have cpos: "0 < c" using assms(1) pp by linarith
  have lo: "1 / 10 ^ 100 * (1 / 10 ^ 201) \<le> p * s" and hi: "p * s \<le> 10 ^ 100 * 10 ^ 201"
    and pos: "0 < p * s"
    using product_bounds [OF pp(1) assms(3,4) pp(2) assms(5,6)] by blast+
  have "1 / 2 ^ 1022 \<le> \<bar>p * s\<bar>" "\<bar>p * s\<bar> \<le> 2 ^ 1023"
    by (rule normal_by_bounds [OF lo hi], simp, simp)+
  then have m: "Fin p * Fin s = Fin z"
    unfolding z_def by (rule Fin_mul_normal)
  have z: "0 \<le> z" "z \<le> 3 * c"
    using pos round53_upper [of "p * s"] assms(7) cpos by (simp_all add: z_def)
  define d where "d = Fin c - Fin z"
  have dd: "d = toDouble (signBit (Fin c) \<and> signBit (neg (Fin z))) (c - z)"
    unfolding d_def using sub_finite [of "Fin c" "Fin z"] by simp
  have cz: "\<bar>c - z\<bar> \<le> 3 * c"
    using z cpos by linarith
  have big: "3 * c \<le> 2 ^ 1023"
  proof -
    have "3 * c \<le> 3 * 10 ^ 100" using assms(2) by simp
    also have "\<dots> \<le> (2::real) ^ 1023" by simp
    finally show ?thesis .
  qed
  have small: "1 / 2 ^ 1075 \<le> c / 8"
  proof -
    have "(1::real) / 2 ^ 1075 \<le> 1 / 10 ^ 100 / 8" by simp
    also have "\<dots> \<le> c / 8" using assms(1) by simp
    finally show ?thesis .
  qed
  have "\<bar>c - z\<bar> \<le> 2 ^ 1023"
    using cz big by linarith
  from toDouble_finite [OF this]
  have d1: "isFinite d" and d2: "\<bar>valueOf d - (c - z)\<bar> \<le> \<bar>c - z\<bar> / 2 ^ 53 + 1 / 2 ^ 1075"
    unfolding dd by blast+
  have "\<bar>valueOf d - (c - z)\<bar> \<le> \<bar>c - z\<bar> / 9007199254740992 + c / 8"
    using d2 small by simp
  then have dv: "\<bar>valueOf d\<bar> \<le> 7 * c / 2"
    using cz cpos by argo
  have h: "d / Fin 2 = toDouble (signBit d \<noteq> signBit (Fin 2)) (valueOf d / 2)"
    using div_finite [OF d1, of "Fin 2"] by simp
  have "\<bar>valueOf d / 2\<bar> \<le> 7 * c / 4"
    using dv by argo
  then have hv: "\<bar>valueOf d / 2\<bar> \<le> 2 ^ 1023" and hv': "\<bar>valueOf d / 2\<bar> \<le> 7 * c / 4"
    using big cpos by linarith+
  from toDouble_finite [OF hv]
  have h1: "isFinite (d / Fin 2)"
    and h2: "\<bar>valueOf (d / Fin 2) - valueOf d / 2\<bar> \<le> \<bar>valueOf d / 2\<bar> / 2 ^ 53 + 1 / 2 ^ 1075"
    unfolding h by blast+
  have "\<bar>valueOf (d / Fin 2) - valueOf d / 2\<bar> \<le> \<bar>valueOf d / 2\<bar> / 9007199254740992 + c / 8"
    using h2 small by simp
  then have "\<bar>valueOf (d / Fin 2)\<bar> \<le> 2 * c"
    using hv' cpos by argo
  then show "isFinite ((Fin c - Fin p * Fin s) / Fin 2)"
    and "\<bar>valueOf ((Fin c - Fin p * Fin s) / Fin 2)\<bar> \<le> 2 * c"
    using h1 by (simp_all only: m d_def)
qed

text \<open>
  The parameters of the contain-fit, the same in both transforms, for dimensions between
  \<open>10^-100\<close> and \<open>10^100\<close>: a positive finite scale factor and two finite offsets.
\<close>

lemma fit_parameters:
  assumes "1 / 10 ^ 100 \<le> cw" "cw \<le> 10 ^ 100" "1 / 10 ^ 100 \<le> ch" "ch \<le> 10 ^ 100"
    and "1 / 10 ^ 100 \<le> pw" "pw \<le> 10 ^ 100" "1 / 10 ^ 100 \<le> ph" "ph \<le> 10 ^ 100"
  shows "\<exists>s OX OY.
    (s = round53 (cw / pw) \<or> s = round53 (ch / ph)) \<and>
    1 / 10 ^ 201 \<le> s \<and> s \<le> 10 ^ 201 \<and> pw * s \<le> 2 * cw \<and> ph * s \<le> 2 * ch \<and>
    isFinite OX \<and> \<bar>valueOf OX\<bar> \<le> 2 * cw \<and> isFinite OY \<and> \<bar>valueOf OY\<bar> \<le> 2 * ch \<and>
    (\<forall>f. unclampedNormalized f \<lparr>dims_width = Fin cw, dims_height = Fin ch\<rparr>
            \<lparr>dims_width = Fin pw, dims_height = Fin ph\<rparr>
        = \<lparr>rect_x = (rect_x f - OX) / Fin s / Fin pw,
           rect_y = (rect_y f - OY) / Fin s / Fin ph,
           rect_width = rect_width f / Fin s / Fin pw,
           rect_height = rect_height f / Fin s / Fin ph\<rparr>) \<and>
    (\<forall>q. transformPDFToFrontend q \<lparr>dims_width = Fin cw, dims_height = Fin ch\<rparr>
            \<lparr>dims_width = Fin pw, dims_height = Fin ph\<rparr>
        = \<lparr>rect_x = rect_x q / Fin pw * Fin pw * Fin s + OX,
           rect_y = (Fin ph - (rect_y q + rect_height q)) / Fin ph * Fin ph * Fin s + OY,
           rect_width = rect_width q * Fin s,
           rect_height = rect_height q * Fin s\<rparr>)"
proof -
  have pp: "(0::real) < 1 / 10 ^ 100" by simp
  have pos: "0 < cw" "0 < ch" "0 < pw" "0 < ph"
    using assms pp by linarith+
  note rp = ratio_in_range [OF assms(5-8)]
  note rc = ratio_in_range [OF assms(1-4)]
  note rw = ratio_in_range [OF assms(1,2,5,6)]
  note rh = ratio_in_range [OF assms(3,4,7,8)]
  show ?thesis
  proof (cases "round53 (cw / ch) < round53 (pw / ph)")
    case True
    define s where "s = round53 (cw / pw)"
    define OY where "OY = (Fin ch - Fin ph * Fin s) / Fin 2"
    have s: "1 / 10 ^ 201 \<le> s" "s \<le> 10 ^ 201"
      using rw by (simp_all add: s_def)
    have a: "pw * s \<le> 2 * cw"
      unfolding s_def using pos by (intro own_product)
    have b: "ph * s \<le> 2 * ch"
      unfolding s_def using pos True by (intro cross_product_wide) simp_all
    note o = offset_finite [OF assms(3,4) assms(7,8) s b, folded OY_def]
    have "isFinite (Fin 0)" "\<bar>valueOf (Fin 0)\<bar> \<le> 2 * cw"
      using pos by simp_all
    moreover have "\<forall>f. unclampedNormalized f \<lparr>dims_width = Fin cw, dims_height = Fin ch\<rparr>
            \<lparr>dims_width = Fin pw, dims_height = Fin ph\<rparr>
        = \<lparr>rect_x = (rect_x f - Fin 0) / Fin s / Fin pw,
           rect_y = (rect_y f - OY) / Fin s / Fin ph,
           rect_width = rect_width f / Fin s / Fin pw,
           rect_height = rect_height f / Fin s / Fin ph\<rparr>"
      using True
      by (simp add: unclampedNormalized_def Let_def rp(3) rc(3) rw(3) s_def OY_def
          del: divide_jsnum.simps times_jsnum.simps plus_jsnum.simps)
    moreover have "\<forall>q. transformPDFToFrontend q \<lparr>dims_width = Fin cw, dims_height = Fin ch\<rparr>
            \<lparr>dims_width = Fin pw, dims_height = Fin ph\<rparr>
        = \<lparr>rect_x = rect_x q / Fin pw * Fin pw * Fin s + Fin 0,
           rect_y = (Fin ph - (rect_y q + rect_height q)) / Fin ph * Fin ph * Fin s + OY,
           rect_width = rect_width q * Fin s,
           rect_height = rect_height q * Fin s\<rparr>"
      using True
      by (simp add: transformPDFToFrontend_def Let_def rp(3) rc(3) rw(3) s_def OY_def
          del: divide_jsnum.simps times_jsnum.simps plus_jsnum.simps)
    ultimately show ?thesis
      using s a b o s_def by blast
  next
    case False
    then have le: "round53 (pw / ph) \<le> round53 (cw / ch)" by simp
    define s where "s = round53 (ch / ph)"
    define OX where "OX = (Fin cw - Fin pw * Fin s) / Fin 2"
    have s: "1 / 10 ^ 201 \<le> s" "s \<le> 10 ^ 201"
      using rh by (simp_all add: s_def)
    have b: "ph * s \<le> 2 * ch"
      unfolding s_def using pos by (intro own_product)
    have a: "pw * s \<le> 2 * cw"
      unfolding s_def using pos le by (intro cross_product_tall) simp_all
    note o = offset_finite [OF assms(1,2) assms(5,6) s a, folded OX_def]
    have "isFinite (Fin 0)" "\<bar>valueOf (Fin 0)\<bar> \<le> 2 * ch"
      using pos by simp_all
    moreover have "\<forall>f. unclampedNormalized f \<lparr>dims_width = Fin cw, dims_height = Fin ch\<rparr>
            \<lparr>dims_width = Fin pw, dims_height = Fin ph\<rparr>
        = \<lparr>rect_x = (rect_x f - OX) / Fin s / Fin pw,
           rect_y = (rect_y f - Fin 0) / Fin s / Fin ph,
           rect_width = rect_width f / Fin s / Fin pw,
           rect_height = rect_height f / Fin s / Fin ph\<rparr>"
      using False
      by (simp add: unclampedNormalized_def Let_def rp(3) rc(3) rh(3) s_def OX_def
          del: divide_jsnum.simps times_jsnum.simps plus_jsnum.simps)
    moreover have "\<forall>q. transformPDFToFrontend q \<lparr>dims_width = Fin cw, dims_height = Fin ch\<rparr>
            \<lparr>dims_width = Fin pw, dims_height = Fin ph\<rparr>
        = \<lparr>rect_x = rect_x q / Fin pw * Fin pw * Fin s + OX,
           rect_y = (Fin ph - (rect_y q + rect_height q)) / Fin ph * Fin ph * Fin s + Fin 0,
           rect_width = rect_width q * Fin s,
           rect_height = rect_height q * Fin s\<rparr>"
      using False
      by (simp add: transformPDFToFrontend_def Let_def rp(3) rc(3) rh(3) s_def OX_def
          del: divide_jsnum.simps times_jsnum.simps plus_jsnum.simps)
    ultimately show ?thesis
      using s a b o s_def by blast
  qed
qed

section \<open>The error of the round trip\<close>

text \<open>
  \<open>a\<close> approximates \<open>b\<close> with a relative error of \<open>k\<close> units of \<open>2^-52\<close> and an absolute
  error of \<open>m\<close>. A scaling keeps the relative error; a rounding adds one unit and the
  error of a subnormal result.
\<close>

lemma approx_scale:
  fixes a b c k m C :: real
  assumes "\<bar>a - b\<bar> \<le> k * \<bar>b\<bar> / 2 ^ 52 + m" and "\<bar>c\<bar> \<le> C" and "0 \<le> m"
  shows "\<bar>a * c - b * c\<bar> \<le> k * \<bar>b * c\<bar> / 2 ^ 52 + C * m"
proof -
  have "a * c - b * c = (a - b) * c"
    by (simp add: algebra_simps)
  then have "\<bar>a * c - b * c\<bar> = \<bar>a - b\<bar> * \<bar>c\<bar>"
    by (simp add: abs_mult)
  also have "\<dots> \<le> (k * \<bar>b\<bar> / 2 ^ 52 + m) * \<bar>c\<bar>"
    using assms(1) by (intro mult_right_mono) simp_all
  also have "\<dots> = k * \<bar>b * c\<bar> / 2 ^ 52 + m * \<bar>c\<bar>"
    by (simp add: abs_mult algebra_simps)
  also have "\<dots> \<le> k * \<bar>b * c\<bar> / 2 ^ 52 + C * m"
  proof -
    have "m * \<bar>c\<bar> \<le> m * C"
      using assms(2,3) by (intro mult_left_mono) simp_all
    then show ?thesis by (simp add: mult.commute)
  qed
  finally show ?thesis .
qed

lemma approx_round:
  fixes a b r k m :: real
  assumes "\<bar>a - b\<bar> \<le> k * \<bar>b\<bar> / 2 ^ 52 + m" and "0 \<le> k" and "k \<le> 1000" and "0 \<le> m"
    and "\<bar>r - a\<bar> \<le> \<bar>a\<bar> / 2 ^ 53 + 1 / 2 ^ 1075"
  shows "\<bar>r - b\<bar> \<le> (k + 1) * \<bar>b\<bar> / 2 ^ 52 + (2 * m + 1 / 2 ^ 1075)"
proof -
  define e where "e = k * \<bar>b\<bar>"
  define h :: real where "h = 1 / 2 ^ 1075"
  have ab: "\<bar>a - b\<bar> \<le> e / 4503599627370496 + m"
    using assms(1) by (simp add: e_def)
  have "k * \<bar>b\<bar> \<le> 1000 * \<bar>b\<bar>"
    using assms by (intro mult_right_mono) simp_all
  then have kb: "e \<le> 1000 * \<bar>b\<bar>" "0 \<le> e"
    using assms(2) by (simp_all add: e_def)
  have ra: "\<bar>r - a\<bar> \<le> \<bar>a\<bar> / 9007199254740992 + h"
    using assms(5) by (simp add: h_def)
  have eq: "(k + 1) * \<bar>b\<bar> / 2 ^ 52 = e / 4503599627370496 + \<bar>b\<bar> / 4503599627370496"
    by (simp add: e_def add_divide_distrib distrib_right)
  have "\<bar>r - b\<bar> \<le> e / 4503599627370496 + \<bar>b\<bar> / 4503599627370496 + (2 * m + h)"
    using ab kb ra assms(4) by argo
  then show ?thesis
    unfolding eq h_def .
qed

lemma approx_step:
  fixes a b c r k m C :: real
  assumes "\<bar>a - b\<bar> \<le> k * \<bar>b\<bar> / 2 ^ 52 + m" and "0 \<le> k" and "k \<le> 1000" and "0 \<le> m"
    and "\<bar>c\<bar> \<le> C"
    and "\<bar>r - a * c\<bar> \<le> \<bar>a * c\<bar> / 2 ^ 53 + 1 / 2 ^ 1075"
    and "2 * (C * m) + 1 / 2 ^ 1075 \<le> m'"
  shows "\<bar>r - b * c\<bar> \<le> (k + 1) * \<bar>b * c\<bar> / 2 ^ 52 + m'"
proof -
  have C: "0 \<le> C" using assms(5) by linarith
  have "\<bar>a * c - b * c\<bar> \<le> k * \<bar>b * c\<bar> / 2 ^ 52 + C * m"
    using assms(1,5,4) by (rule approx_scale)
  moreover have "0 \<le> C * m" using C assms(4) by simp
  ultimately have "\<bar>r - b * c\<bar> \<le> (k + 1) * \<bar>b * c\<bar> / 2 ^ 52 + (2 * (C * m) + 1 / 2 ^ 1075)"
    using assms(2,3,6) by (intro approx_round) simp_all
  then show ?thesis
    using assms(7) by linarith
qed

lemma approx_step_div:
  fixes a b c r k m C :: real
  assumes "\<bar>a - b\<bar> \<le> k * \<bar>b\<bar> / 2 ^ 52 + m" and "0 \<le> k" and "k \<le> 1000" and "0 \<le> m"
    and "\<bar>1 / c\<bar> \<le> C"
    and "\<bar>r - a / c\<bar> \<le> \<bar>a / c\<bar> / 2 ^ 53 + 1 / 2 ^ 1075"
    and "2 * (C * m) + 1 / 2 ^ 1075 \<le> m'"
  shows "\<bar>r - b / c\<bar> \<le> (k + 1) * \<bar>b / c\<bar> / 2 ^ 52 + m'"
  using approx_step [of a b k m "1 / c" C r m'] assms by simp

text \<open>
  The chain of a width or height: divided by the scale factor and the page dimension,
  multiplied by the page dimension and the scale factor, each result rounded.
\<close>

lemma roundtrip_w_real:
  fixes w s p q n t r :: real
  assumes s: "0 < s" "s \<le> 10 ^ 25" "1 / s \<le> 10 ^ 25"
    and p: "0 < p" "p \<le> 10 ^ 12" "1 / p \<le> 10 ^ 12"
    and w: "\<bar>w\<bar> \<le> 10 ^ 12"
    and e1: "\<bar>q - w / s\<bar> \<le> \<bar>w / s\<bar> / 2 ^ 53 + 1 / 2 ^ 1075"
    and e2: "\<bar>n - q / p\<bar> \<le> \<bar>q / p\<bar> / 2 ^ 53 + 1 / 2 ^ 1075"
    and e3: "\<bar>t - n * p\<bar> \<le> \<bar>n * p\<bar> / 2 ^ 53 + 1 / 2 ^ 1075"
    and e4: "\<bar>r - t * s\<bar> \<le> \<bar>t * s\<bar> / 2 ^ 53 + 1 / 2 ^ 1075"
  shows "\<bar>n - w / s / p\<bar> \<le> 2 * \<bar>w / s / p\<bar> / 2 ^ 52 + 1 / 10 ^ 300"
    and "\<bar>r - w\<bar> \<le> 4 * \<bar>w\<bar> / 2 ^ 52 + 1 / 10 ^ 200"
    and "\<bar>r - w\<bar> < 1"
proof -
  have as: "\<bar>1 / s\<bar> \<le> 10 ^ 25" "\<bar>s\<bar> \<le> 10 ^ 25"
    and ap: "\<bar>1 / p\<bar> \<le> 10 ^ 12" "\<bar>p\<bar> \<le> 10 ^ 12"
    using s p by simp_all
  have 0: "\<bar>w - w\<bar> \<le> 0 * \<bar>w\<bar> / 2 ^ 52 + 0" by simp
  have 1: "\<bar>q - w / s\<bar> \<le> (0 + 1) * \<bar>w / s\<bar> / 2 ^ 52 + 1 / 10 ^ 320"
    by (rule approx_step_div [OF 0 _ _ _ as(1) e1]) simp_all
  have 2: "\<bar>n - w / s / p\<bar> \<le> (0 + 1 + 1) * \<bar>w / s / p\<bar> / 2 ^ 52 + 1 / 10 ^ 300"
    by (rule approx_step_div [OF 1 _ _ _ ap(1) e2]) simp_all
  then show "\<bar>n - w / s / p\<bar> \<le> 2 * \<bar>w / s / p\<bar> / 2 ^ 52 + 1 / 10 ^ 300"
    by simp
  have 3: "\<bar>t - w / s / p * p\<bar> \<le> (0 + 1 + 1 + 1) * \<bar>w / s / p * p\<bar> / 2 ^ 52 + 1 / 10 ^ 280"
    by (rule approx_step [OF 2 _ _ _ ap(2) e3]) simp_all
  have 4: "\<bar>r - w / s / p * p * s\<bar>
      \<le> (0 + 1 + 1 + 1 + 1) * \<bar>w / s / p * p * s\<bar> / 2 ^ 52 + 1 / 10 ^ 250"
    by (rule approx_step [OF 3 _ _ _ as(2) e4]) simp_all
  have "w / s / p * p * s = w"
    using s p by simp
  then have 5: "\<bar>r - w\<bar> \<le> 4 * \<bar>w\<bar> / 4503599627370496 + 1 / 10 ^ 250"
    using 4 by simp
  have "(1::real) / 10 ^ 250 \<le> 1 / 10 ^ 200" by simp
  then show "\<bar>r - w\<bar> \<le> 4 * \<bar>w\<bar> / 2 ^ 52 + 1 / 10 ^ 200"
    using 5 by simp
  have "(1::real) / 10 ^ 250 \<le> 1 / 2" by simp
  moreover have "\<bar>w\<bar> \<le> 1000000000000" using w by simp
  ultimately show "\<bar>r - w\<bar> < 1"
    using 5 by argo
qed

text \<open>
  The chain of the horizontal coordinate: shifted by the offset, normalized, converted to
  points, divided and multiplied back, scaled and shifted.
\<close>

lemma forward_real:
  fixes x ox s p d q n :: real
  assumes s: "0 < s" "1 / s \<le> 10 ^ 25" and p: "0 < p" "1 / p \<le> 10 ^ 12"
    and e0: "\<bar>d - (x - ox)\<bar> \<le> \<bar>x - ox\<bar> / 2 ^ 53 + 1 / 2 ^ 1075"
    and e1: "\<bar>q - d / s\<bar> \<le> \<bar>d / s\<bar> / 2 ^ 53 + 1 / 2 ^ 1075"
    and e2: "\<bar>n - q / p\<bar> \<le> \<bar>q / p\<bar> / 2 ^ 53 + 1 / 2 ^ 1075"
  shows "\<bar>n - (x - ox) / s / p\<bar> \<le> 3 * \<bar>(x - ox) / s / p\<bar> / 2 ^ 52 + 1 / 10 ^ 270"
proof -
  define D where "D = x - ox"
  have as: "\<bar>1 / s\<bar> \<le> 10 ^ 25" and ap: "\<bar>1 / p\<bar> \<le> 10 ^ 12"
    using s p by simp_all
  have a: "\<bar>D - D\<bar> \<le> 0 * \<bar>D\<bar> / 2 ^ 52 + 0" by simp
  have "\<bar>d - D * 1\<bar> \<le> (0 + 1) * \<bar>D * 1\<bar> / 2 ^ 52 + 1 / 10 ^ 320"
    by (rule approx_step [OF a, of 1 1]) (use e0 in \<open>simp_all add: D_def\<close>)
  then have 0: "\<bar>d - D\<bar> \<le> 1 * \<bar>D\<bar> / 2 ^ 52 + 1 / 10 ^ 320"
    by simp
  have 1: "\<bar>q - D / s\<bar> \<le> (1 + 1) * \<bar>D / s\<bar> / 2 ^ 52 + 1 / 10 ^ 290"
    by (rule approx_step_div [OF 0 _ _ _ as e1]) simp_all
  have 2: "\<bar>n - D / s / p\<bar> \<le> (1 + 1 + 1) * \<bar>D / s / p\<bar> / 2 ^ 52 + 1 / 10 ^ 270"
    by (rule approx_step_div [OF 1 _ _ _ ap e2]) simp_all
  then show ?thesis
    by (simp add: D_def)
qed

lemma roundtrip_x_real:
  fixes x ox s p n t n' t' q' r :: real
  assumes s: "0 < s" "s \<le> 10 ^ 25" and p: "0 < p" "p \<le> 10 ^ 12" "1 / p \<le> 10 ^ 12"
    and x: "\<bar>x\<bar> \<le> 10 ^ 12" and ox: "\<bar>ox\<bar> \<le> 2 * 10 ^ 12"
    and n: "\<bar>n - (x - ox) / s / p\<bar> \<le> 3 * \<bar>(x - ox) / s / p\<bar> / 2 ^ 52 + 1 / 10 ^ 270"
    and e3: "\<bar>t - n * p\<bar> \<le> \<bar>n * p\<bar> / 2 ^ 53 + 1 / 2 ^ 1075"
    and e4: "\<bar>n' - t / p\<bar> \<le> \<bar>t / p\<bar> / 2 ^ 53 + 1 / 2 ^ 1075"
    and e5: "\<bar>t' - n' * p\<bar> \<le> \<bar>n' * p\<bar> / 2 ^ 53 + 1 / 2 ^ 1075"
    and e6: "\<bar>q' - t' * s\<bar> \<le> \<bar>t' * s\<bar> / 2 ^ 53 + 1 / 2 ^ 1075"
    and e7: "\<bar>r - (q' + ox)\<bar> \<le> \<bar>q' + ox\<bar> / 2 ^ 53 + 1 / 2 ^ 1075"
  shows "\<bar>r - x\<bar> < 1"
proof -
  define D where "D = x - ox"
  have as: "\<bar>s\<bar> \<le> 10 ^ 25"
    and ap: "\<bar>1 / p\<bar> \<le> 10 ^ 12" "\<bar>p\<bar> \<le> 10 ^ 12"
    using s p by simp_all
  have 2: "\<bar>n - D / s / p\<bar> \<le> 3 * \<bar>D / s / p\<bar> / 2 ^ 52 + 1 / 10 ^ 270"
    using n by (simp add: D_def)
  have 3: "\<bar>t - D / s / p * p\<bar> \<le> (3 + 1) * \<bar>D / s / p * p\<bar> / 2 ^ 52 + 1 / 10 ^ 250"
    by (rule approx_step [OF 2 _ _ _ ap(2) e3]) simp_all
  have 4: "\<bar>n' - D / s / p * p / p\<bar>
      \<le> (3 + 1 + 1) * \<bar>D / s / p * p / p\<bar> / 2 ^ 52 + 1 / 10 ^ 230"
    by (rule approx_step_div [OF 3 _ _ _ ap(1) e4]) simp_all
  have 5: "\<bar>t' - D / s / p * p / p * p\<bar>
      \<le> (3 + 1 + 1 + 1) * \<bar>D / s / p * p / p * p\<bar> / 2 ^ 52 + 1 / 10 ^ 210"
    by (rule approx_step [OF 4 _ _ _ ap(2) e5]) simp_all
  have 6: "\<bar>q' - D / s / p * p / p * p * s\<bar>
      \<le> (3 + 1 + 1 + 1 + 1) * \<bar>D / s / p * p / p * p * s\<bar> / 2 ^ 52 + 1 / 10 ^ 180"
    by (rule approx_step [OF 5 _ _ _ as e6]) simp_all
  have "D / s / p * p / p * p * s = D"
    using s p by simp
  then have 7: "\<bar>q' - D\<bar> \<le> 7 * \<bar>D\<bar> / 4503599627370496 + 1 / 10 ^ 180"
    using 6 by simp
  have t1: "(1::real) / 10 ^ 180 \<le> 1 / 4" "(1::real) / 2 ^ 1075 \<le> 1 / 4" by simp_all
  have b: "\<bar>x\<bar> \<le> 1000000000000" "\<bar>ox\<bar> \<le> 2000000000000"
    using x ox by simp_all
  have e: "\<bar>r - (q' + ox)\<bar> \<le> \<bar>q' + ox\<bar> / 9007199254740992 + 1 / 2 ^ 1075"
    using e7 by simp
  show "\<bar>r - x\<bar> < 1"
    using 7 e t1 b unfolding D_def by argo
qed

text \<open>
  The chain of the vertical coordinate passes through two subtractions from the page
  height; its error is bounded in terms of the page height times the scale factor.
\<close>

lemma abs_step:
  fixes a t r E T h :: real
  assumes "\<bar>a - t\<bar> \<le> E" and "\<bar>t\<bar> \<le> T" and "\<bar>r - a\<bar> \<le> \<bar>a\<bar> / 9007199254740992 + h"
  shows "\<bar>r - t\<bar> \<le> E + (T + E) / 9007199254740992 + h"
  using assms by argo

lemma scale_step:
  fixes a t c E :: real
  assumes "\<bar>a - t\<bar> \<le> E" and "0 \<le> c"
  shows "\<bar>a * c - t * c\<bar> \<le> E * c"
proof -
  have "a * c - t * c = (a - t) * c"
    by (simp add: algebra_simps)
  then have "\<bar>a * c - t * c\<bar> = \<bar>a - t\<bar> * c"
    using assms(2) by (simp add: abs_mult)
  also have "\<dots> \<le> E * c"
    using assms by (intro mult_right_mono) simp_all
  finally show ?thesis .
qed

lemma roundtrip_y_real:
  fixes y oy s p ny nh sum q py pH r1 NY NYt r2 r3 r :: real
  assumes p: "1 / 10 ^ 12 \<le> p" and s: "1 / 10 ^ 26 \<le> s" and S: "p * s \<le> 2 * 10 ^ 12"
    and unit: "0 \<le> ny" "ny \<le> 1" "0 \<le> nh" "nh \<le> 1"
    and y: "\<bar>y\<bar> \<le> 10 ^ 12" and oy: "\<bar>oy\<bar> \<le> 2 * 10 ^ 12"
    and rel: "\<bar>ny * p * s - (y - oy)\<bar> \<le> 3 * \<bar>y - oy\<bar> / 2 ^ 52 + 1 / 10 ^ 200"
    and ea: "\<bar>sum - (ny + nh)\<bar> \<le> \<bar>ny + nh\<bar> / 2 ^ 53 + 1 / 2 ^ 1075"
    and eb: "\<bar>q - sum * p\<bar> \<le> \<bar>sum * p\<bar> / 2 ^ 53 + 1 / 2 ^ 1075"
    and ec: "\<bar>py - (p - q)\<bar> \<le> \<bar>p - q\<bar> / 2 ^ 53 + 1 / 2 ^ 1075"
    and ed: "\<bar>pH - nh * p\<bar> \<le> \<bar>nh * p\<bar> / 2 ^ 53 + 1 / 2 ^ 1075"
    and ee: "\<bar>r1 - (py + pH)\<bar> \<le> \<bar>py + pH\<bar> / 2 ^ 53 + 1 / 2 ^ 1075"
    and ef: "\<bar>NY - (p - r1)\<bar> \<le> \<bar>p - r1\<bar> / 2 ^ 53 + 1 / 2 ^ 1075"
    and eg: "\<bar>NYt - NY / p\<bar> \<le> \<bar>NY / p\<bar> / 2 ^ 53 + 1 / 2 ^ 1075"
    and eh: "\<bar>r2 - NYt * p\<bar> \<le> \<bar>NYt * p\<bar> / 2 ^ 53 + 1 / 2 ^ 1075"
    and ei: "\<bar>r3 - r2 * s\<bar> \<le> \<bar>r2 * s\<bar> / 2 ^ 53 + 1 / 2 ^ 1075"
    and ej: "\<bar>r - (r3 + oy)\<bar> \<le> \<bar>r3 + oy\<bar> / 2 ^ 53 + 1 / 2 ^ 1075"
  shows "\<bar>r - y\<bar> < 1"
proof -
  define h :: real where "h = 1 / 2 ^ 1075"
  define S' where "S' = p * s"
  define d where "d = y - oy"
  have pp: "(0::real) < 1 / 10 ^ 12" "(0::real) < 1 / 10 ^ 26" by simp_all
  have pos: "0 < p" "0 < s" using p s pp by linarith+
  have Spos: "0 < S'" using pos by (simp add: S'_def)
  have "1 / 10 ^ 12 * (1 / 10 ^ 26) \<le> p * s"
    using p s by (intro mult_mono) simp_all
  then have Slow: "1 / 10 ^ 38 \<le> S'" by (simp add: S'_def)
  have h1: "0 \<le> h" "h \<le> 1 / 18014398509481984"
    by (simp_all add: h_def)
  have "h \<le> 1 / 10 ^ 12 / 18014398509481984" by (simp add: h_def)
  also have "\<dots> \<le> p / 18014398509481984" using p by (intro divide_right_mono) simp_all
  finally have hp: "h \<le> p / 18014398509481984" .
  have "h \<le> 1 / 10 ^ 38 / 18014398509481984" by (simp add: h_def)
  also have "\<dots> \<le> S' / 18014398509481984" using Slow by (intro divide_right_mono) simp_all
  finally have hS: "h \<le> S' / 18014398509481984" .
  note e = ea eb ec ed ee ef eg eh ei ej
  have nyp: "0 \<le> ny * p" "ny * p \<le> p" "0 \<le> nh * p" "nh * p \<le> p"
    using unit pos by (simp_all add: mult_left_le_one_le mult_nonneg_nonneg)
  \<comment> \<open>the sum of the normalized top and height\<close>
  have "\<bar>(ny + nh) - (ny + nh)\<bar> \<le> 0" "\<bar>ny + nh\<bar> \<le> 2"
    using unit by simp_all
  moreover have "\<bar>sum - (ny + nh)\<bar> \<le> \<bar>ny + nh\<bar> / 9007199254740992 + h"
    using ea by (simp add: h_def)
  ultimately have "\<bar>sum - (ny + nh)\<bar> \<le> 0 + (2 + 0) / 9007199254740992 + h"
    by (rule abs_step)
  then have a: "\<bar>sum - (ny + nh)\<bar> \<le> 3 / 9007199254740992"
    using h1 by argo
  from scale_step [OF a, of p] have "\<bar>sum * p - (ny + nh) * p\<bar> \<le> 3 / 9007199254740992 * p"
    using pos by simp
  moreover have "\<bar>(ny + nh) * p\<bar> \<le> 2 * p"
    using nyp by (simp add: algebra_simps)
  moreover have "\<bar>q - sum * p\<bar> \<le> \<bar>sum * p\<bar> / 9007199254740992 + h"
    using eb by (simp add: h_def)
  ultimately have "\<bar>q - (ny + nh) * p\<bar>
      \<le> 3 / 9007199254740992 * p + (2 * p + 3 / 9007199254740992 * p) / 9007199254740992 + h"
    by (rule abs_step)
  then have b: "\<bar>q - (ny + nh) * p\<bar> \<le> 6 * p / 9007199254740992"
    using pos hp by argo
  \<comment> \<open>the point coordinate, measured from the bottom\<close>
  have "\<bar>(p - q) - (p - (ny + nh) * p)\<bar> \<le> 6 * p / 9007199254740992"
    using b by argo
  moreover have "\<bar>p - (ny + nh) * p\<bar> \<le> p"
    using nyp by (simp add: algebra_simps abs_le_iff)
  moreover have "\<bar>py - (p - q)\<bar> \<le> \<bar>p - q\<bar> / 9007199254740992 + h"
    using ec by (simp add: h_def)
  ultimately have "\<bar>py - (p - (ny + nh) * p)\<bar>
      \<le> 6 * p / 9007199254740992 + (p + 6 * p / 9007199254740992) / 9007199254740992 + h"
    by (rule abs_step)
  then have c: "\<bar>py - (p - (ny + nh) * p)\<bar> \<le> 8 * p / 9007199254740992"
    using pos hp by argo
  have "\<bar>nh * p - nh * p\<bar> \<le> 0" "\<bar>nh * p\<bar> \<le> p"
    using nyp by simp_all
  moreover have "\<bar>pH - nh * p\<bar> \<le> \<bar>nh * p\<bar> / 9007199254740992 + h"
    using ed by (simp add: h_def)
  ultimately have "\<bar>pH - nh * p\<bar> \<le> 0 + (p + 0) / 9007199254740992 + h"
    by (rule abs_step)
  then have e': "\<bar>pH - nh * p\<bar> \<le> 2 * p / 9007199254740992"
    using hp by argo
  \<comment> \<open>back: the distance from the top\<close>
  have "(py + pH) - (p - ny * p) = (py - (p - (ny + nh) * p)) + (pH - nh * p)"
    by (simp add: algebra_simps)
  then have "\<bar>(py + pH) - (p - ny * p)\<bar> \<le> 10 * p / 9007199254740992"
    using c e' by argo
  moreover have "\<bar>p - ny * p\<bar> \<le> p"
    using nyp by (simp add: abs_le_iff)
  moreover have "\<bar>r1 - (py + pH)\<bar> \<le> \<bar>py + pH\<bar> / 9007199254740992 + h"
    using ee by (simp add: h_def)
  ultimately have "\<bar>r1 - (p - ny * p)\<bar>
      \<le> 10 * p / 9007199254740992 + (p + 10 * p / 9007199254740992) / 9007199254740992 + h"
    by (rule abs_step)
  then have f: "\<bar>r1 - (p - ny * p)\<bar> \<le> 12 * p / 9007199254740992"
    using pos hp by argo
  have "\<bar>(p - r1) - ny * p\<bar> \<le> 12 * p / 9007199254740992"
    using f by argo
  moreover have "\<bar>ny * p\<bar> \<le> p"
    using nyp by simp
  moreover have "\<bar>NY - (p - r1)\<bar> \<le> \<bar>p - r1\<bar> / 9007199254740992 + h"
    using ef by (simp add: h_def)
  ultimately have "\<bar>NY - ny * p\<bar>
      \<le> 12 * p / 9007199254740992 + (p + 12 * p / 9007199254740992) / 9007199254740992 + h"
    by (rule abs_step)
  then have g: "\<bar>NY - ny * p\<bar> \<le> 14 * p / 9007199254740992"
    using pos hp by argo
  from scale_step [OF g, of "1 / p"] have "\<bar>NY / p - ny\<bar> \<le> 14 / 9007199254740992"
    using pos by simp
  moreover have "\<bar>ny\<bar> \<le> 1"
    using unit by simp
  moreover have "\<bar>NYt - NY / p\<bar> \<le> \<bar>NY / p\<bar> / 9007199254740992 + h"
    using eg by (simp add: h_def)
  ultimately have "\<bar>NYt - ny\<bar>
      \<le> 14 / 9007199254740992 + (1 + 14 / 9007199254740992) / 9007199254740992 + h"
    by (rule abs_step)
  then have i: "\<bar>NYt - ny\<bar> \<le> 16 / 9007199254740992"
    using h1 by argo
  from scale_step [OF i, of p] have "\<bar>NYt * p - ny * p\<bar> \<le> 16 / 9007199254740992 * p"
    using pos by simp
  moreover have "\<bar>ny * p\<bar> \<le> p"
    using nyp by simp
  moreover have "\<bar>r2 - NYt * p\<bar> \<le> \<bar>NYt * p\<bar> / 9007199254740992 + h"
    using eh by (simp add: h_def)
  ultimately have "\<bar>r2 - ny * p\<bar>
      \<le> 16 / 9007199254740992 * p + (p + 16 / 9007199254740992 * p) / 9007199254740992 + h"
    by (rule abs_step)
  then have j: "\<bar>r2 - ny * p\<bar> \<le> 18 / 9007199254740992 * p"
    using pos hp by argo
  \<comment> \<open>back to pixels\<close>
  from scale_step [OF j, of s] have "\<bar>r2 * s - ny * p * s\<bar> \<le> 18 / 9007199254740992 * S'"
    using pos by (simp add: S'_def algebra_simps)
  moreover have "\<bar>ny * p * s\<bar> \<le> S'"
  proof -
    have "ny * p * s \<le> p * s"
      using nyp pos by (intro mult_right_mono) simp_all
    moreover have "0 \<le> ny * p * s"
      using nyp pos by simp
    ultimately show ?thesis by (simp add: S'_def)
  qed
  moreover have "\<bar>r3 - r2 * s\<bar> \<le> \<bar>r2 * s\<bar> / 9007199254740992 + h"
    using ei by (simp add: h_def)
  ultimately have "\<bar>r3 - ny * p * s\<bar>
      \<le> 18 / 9007199254740992 * S' + (S' + 18 / 9007199254740992 * S') / 9007199254740992 + h"
    by (rule abs_step)
  then have k: "\<bar>r3 - ny * p * s\<bar> \<le> 20 * S' / 9007199254740992"
    using Spos hS by argo
  have rel': "\<bar>ny * p * s - d\<bar> \<le> 3 * \<bar>d\<bar> / 4503599627370496 + 1 / 10 ^ 200"
    using rel by (simp add: d_def)
  have t: "(1::real) / 10 ^ 200 \<le> 1 / 4"
    by simp
  have bd: "\<bar>y\<bar> \<le> 1000000000000" "\<bar>oy\<bar> \<le> 2000000000000" "S' \<le> 2000000000000"
    using y oy S by (simp_all add: S'_def)
  have fin: "\<bar>r - (r3 + oy)\<bar> \<le> \<bar>r3 + oy\<bar> / 9007199254740992 + h"
    using ej by (simp add: h_def)
  have "(r3 + oy) - y = (r3 - ny * p * s) + (ny * p * s - d)"
    by (simp add: d_def)
  then have "\<bar>(r3 + oy) - y\<bar> \<le> 20 * S' / 9007199254740992 + 3 * \<bar>d\<bar> / 4503599627370496 + 1 / 4"
    using k rel' t by argo
  moreover have "\<bar>d\<bar> \<le> 3000000000000"
    using bd by (simp add: d_def)
  ultimately have "\<bar>(r3 + oy) - y\<bar> \<le> 1 / 2"
    using bd Spos by argo
  then show ?thesis
    using fin bd h1 by argo
qed

text \<open>
  An operation on finite numbers of bounded magnitude: the result is finite, within the
  rounding error of the exact result, and of bounded magnitude.
\<close>

lemma round_bound:
  assumes "\<bar>x\<bar> \<le> T" and "2 * T + 1 \<le> W" and "W \<le> 2 ^ 1023"
  shows "isFinite (toDouble s x)"
    and "\<bar>valueOf (toDouble s x) - x\<bar> \<le> \<bar>x\<bar> / 2 ^ 53 + 1 / 2 ^ 1075"
    and "\<bar>valueOf (toDouble s x)\<bar> \<le> W"
proof -
  have "0 \<le> T" using assms(1) by linarith
  then have "\<bar>x\<bar> \<le> 2 ^ 1023" using assms by linarith
  from toDouble_finite [OF this, of s]
  show f: "isFinite (toDouble s x)"
    and e: "\<bar>valueOf (toDouble s x) - x\<bar> \<le> \<bar>x\<bar> / 2 ^ 53 + 1 / 2 ^ 1075"
    by blast+
  have "(1::real) / 2 ^ 1075 \<le> 1" by simp
  moreover have "\<bar>valueOf (toDouble s x) - x\<bar> \<le> \<bar>x\<bar> / 9007199254740992 + 1 / 2 ^ 1075"
    using e by simp
  ultimately show "\<bar>valueOf (toDouble s x)\<bar> \<le> W"
    using assms(1,2) by argo
qed

lemma sub_round:
  assumes "isFinite u" and "isFinite v" and "\<bar>valueOf u\<bar> \<le> U" and "\<bar>valueOf v\<bar> \<le> V"
    and "2 * (U + V) + 1 \<le> W" and "W \<le> 2 ^ 1023"
  shows "isFinite (u - v)"
    and "\<bar>valueOf (u - v) - (valueOf u - valueOf v)\<bar>
           \<le> \<bar>valueOf u - valueOf v\<bar> / 2 ^ 53 + 1 / 2 ^ 1075"
    and "\<bar>valueOf (u - v)\<bar> \<le> W"
proof -
  have "\<bar>valueOf u - valueOf v\<bar> \<le> U + V"
    using assms(3,4) by linarith
  from round_bound [OF this assms(5,6)] show "isFinite (u - v)"
    and "\<bar>valueOf (u - v) - (valueOf u - valueOf v)\<bar>
           \<le> \<bar>valueOf u - valueOf v\<bar> / 2 ^ 53 + 1 / 2 ^ 1075"
    and "\<bar>valueOf (u - v)\<bar> \<le> W"
    unfolding sub_finite [OF assms(1,2)] by blast+
qed

lemma add_round:
  assumes "isFinite u" and "isFinite v" and "\<bar>valueOf u\<bar> \<le> U" and "\<bar>valueOf v\<bar> \<le> V"
    and "2 * (U + V) + 1 \<le> W" and "W \<le> 2 ^ 1023"
  shows "isFinite (u + v)"
    and "\<bar>valueOf (u + v) - (valueOf u + valueOf v)\<bar>
           \<le> \<bar>valueOf u + valueOf v\<bar> / 2 ^ 53 + 1 / 2 ^ 1075"
    and "\<bar>valueOf (u + v)\<bar> \<le> W"
proof -
  have "\<bar>valueOf u + valueOf v\<bar> \<le> U + V"
    using assms(3,4) by linarith
  from round_bound [OF this assms(5,6)] show "isFinite (u + v)"
    and "\<bar>valueOf (u + v) - (valueOf u + valueOf v)\<bar>
           \<le> \<bar>valueOf u + valueOf v\<bar> / 2 ^ 53 + 1 / 2 ^ 1075"
    and "\<bar>valueOf (u + v)\<bar> \<le> W"
    unfolding add_finite [OF assms(1,2)] by blast+
qed

lemma mul_round:
  assumes "isFinite u" and "\<bar>valueOf u\<bar> \<le> U" and "\<bar>c\<bar> \<le> C"
    and "2 * (U * C) + 1 \<le> W" and "W \<le> 2 ^ 1023"
  shows "isFinite (u * Fin c)"
    and "\<bar>valueOf (u * Fin c) - valueOf u * c\<bar> \<le> \<bar>valueOf u * c\<bar> / 2 ^ 53 + 1 / 2 ^ 1075"
    and "\<bar>valueOf (u * Fin c)\<bar> \<le> W"
proof -
  have "\<bar>valueOf u\<bar> * \<bar>c\<bar> \<le> U * C"
    using assms(2,3) by (intro mult_mono) simp_all
  then have "\<bar>valueOf u * c\<bar> \<le> U * C"
    by (simp add: abs_mult)
  from round_bound [OF this assms(4,5)] show "isFinite (u * Fin c)"
    and "\<bar>valueOf (u * Fin c) - valueOf u * c\<bar> \<le> \<bar>valueOf u * c\<bar> / 2 ^ 53 + 1 / 2 ^ 1075"
    and "\<bar>valueOf (u * Fin c)\<bar> \<le> W"
    using mul_finite [OF assms(1), of "Fin c"] by simp_all
qed

lemma div_round:
  assumes "isFinite u" and "\<bar>valueOf u\<bar> \<le> U" and "c \<noteq> 0" and "\<bar>1 / c\<bar> \<le> C"
    and "2 * (U * C) + 1 \<le> W" and "W \<le> 2 ^ 1023"
  shows "isFinite (u / Fin c)"
    and "\<bar>valueOf (u / Fin c) - valueOf u / c\<bar> \<le> \<bar>valueOf u / c\<bar> / 2 ^ 53 + 1 / 2 ^ 1075"
    and "\<bar>valueOf (u / Fin c)\<bar> \<le> W"
proof -
  have "\<bar>valueOf u\<bar> * \<bar>1 / c\<bar> \<le> U * C"
    using assms(2,4) by (intro mult_mono) simp_all
  then have "\<bar>valueOf u / c\<bar> \<le> U * C"
    by (simp add: abs_mult abs_divide)
  from round_bound [OF this assms(5,6)] show "isFinite (u / Fin c)"
    and "\<bar>valueOf (u / Fin c) - valueOf u / c\<bar> \<le> \<bar>valueOf u / c\<bar> / 2 ^ 53 + 1 / 2 ^ 1075"
    and "\<bar>valueOf (u / Fin c)\<bar> \<le> W"
    using div_finite [OF assms(1), of "Fin c"] assms(3) by simp_all
qed

text \<open>The three chains of the round trip, on the numbers of the engine.\<close>

lemma w_chain:
  assumes s: "1 / 10 ^ 25 \<le> s" "s \<le> 10 ^ 25" and p: "1 / 10 ^ 12 \<le> p" "p \<le> 10 ^ 12"
    and w: "isFinite w" "\<bar>valueOf w\<bar> \<le> 10 ^ 12"
  shows "lessThanOneApart (w / Fin s / Fin p * Fin p * Fin s) w"
proof -
  have pp: "(0::real) < 1 / 10 ^ 25" "(0::real) < 1 / 10 ^ 12" by simp_all
  have pos: "0 < s" "0 < p" using s p pp by linarith+
  have "1 / s \<le> 1 / (1 / 10 ^ 25)"
    using s(1) pp by (intro divide_left_mono) simp_all
  then have inv_s: "1 / s \<le> 10 ^ 25" by simp
  have "1 / p \<le> 1 / (1 / 10 ^ 12)"
    using p(1) pp by (intro divide_left_mono) simp_all
  then have inv_p: "1 / p \<le> 10 ^ 12" by simp
  have ab: "\<bar>1 / s\<bar> \<le> 10 ^ 25" "\<bar>s\<bar> \<le> 10 ^ 25" "\<bar>1 / p\<bar> \<le> 10 ^ 12" "\<bar>p\<bar> \<le> 10 ^ 12"
    "s \<noteq> 0" "p \<noteq> 0"
    using pos inv_s inv_p s p by simp_all
  note q = div_round [OF w ab(5) ab(1), where W = "10 ^ 38"]
  have q: "isFinite (w / Fin s)"
    "\<bar>valueOf (w / Fin s) - valueOf w / s\<bar> \<le> \<bar>valueOf w / s\<bar> / 2 ^ 53 + 1 / 2 ^ 1075"
    "\<bar>valueOf (w / Fin s)\<bar> \<le> 10 ^ 38"
    by (rule q, simp, simp)+
  note n = div_round [OF q(1,3) ab(6) ab(3), where W = "10 ^ 51"]
  have n: "isFinite (w / Fin s / Fin p)"
    "\<bar>valueOf (w / Fin s / Fin p) - valueOf (w / Fin s) / p\<bar>
       \<le> \<bar>valueOf (w / Fin s) / p\<bar> / 2 ^ 53 + 1 / 2 ^ 1075"
    "\<bar>valueOf (w / Fin s / Fin p)\<bar> \<le> 10 ^ 51"
    by (rule n, simp, simp)+
  note t = mul_round [OF n(1,3) ab(4), where W = "10 ^ 64"]
  have t: "isFinite (w / Fin s / Fin p * Fin p)"
    "\<bar>valueOf (w / Fin s / Fin p * Fin p) - valueOf (w / Fin s / Fin p) * p\<bar>
       \<le> \<bar>valueOf (w / Fin s / Fin p) * p\<bar> / 2 ^ 53 + 1 / 2 ^ 1075"
    "\<bar>valueOf (w / Fin s / Fin p * Fin p)\<bar> \<le> 10 ^ 64"
    by (rule t, simp, simp)+
  note r = mul_round [OF t(1,3) ab(2), where W = "10 ^ 90"]
  have r: "isFinite (w / Fin s / Fin p * Fin p * Fin s)"
    "\<bar>valueOf (w / Fin s / Fin p * Fin p * Fin s) - valueOf (w / Fin s / Fin p * Fin p) * s\<bar>
       \<le> \<bar>valueOf (w / Fin s / Fin p * Fin p) * s\<bar> / 2 ^ 53 + 1 / 2 ^ 1075"
    by (rule r, simp, simp)+
  have "\<bar>valueOf (w / Fin s / Fin p * Fin p * Fin s) - valueOf w\<bar> < 1"
    by (rule roundtrip_w_real(3) [OF pos(1) s(2) inv_s pos(2) p(2) inv_p w(2) q(2) n(2) t(2) r(2)])
  then show ?thesis
    using r(1) w(1) by (simp add: lessThanOneApart_def)
qed

lemma rsub_round:
  assumes "isFinite v" and "\<bar>c\<bar> \<le> C" and "\<bar>valueOf v\<bar> \<le> V"
    and "2 * (C + V) + 1 \<le> W" and "W \<le> 2 ^ 1023"
  shows "isFinite (Fin c - v)"
    and "\<bar>valueOf (Fin c - v) - (c - valueOf v)\<bar> \<le> \<bar>c - valueOf v\<bar> / 2 ^ 53 + 1 / 2 ^ 1075"
    and "\<bar>valueOf (Fin c - v)\<bar> \<le> W"
  using sub_round [of "Fin c" v C V W] assms by simp_all

lemma inverse_bound:
  fixes s :: real
  assumes "0 < l" and "l \<le> s"
  shows "0 < s" and "s \<noteq> 0" and "\<bar>1 / s\<bar> \<le> 1 / l" and "1 / s \<le> 1 / l"
proof -
  show s: "0 < s" using assms by linarith
  then show "s \<noteq> 0" by simp
  show "1 / s \<le> 1 / l"
    using assms s by (intro divide_left_mono) simp_all
  then show "\<bar>1 / s\<bar> \<le> 1 / l"
    using s by simp
qed

lemma x_chain:
  assumes s: "1 / 10 ^ 25 \<le> s" "s \<le> 10 ^ 25" and p: "1 / 10 ^ 12 \<le> p" "p \<le> 10 ^ 12"
    and x: "isFinite x" "\<bar>valueOf x\<bar> \<le> 10 ^ 12"
    and o: "isFinite OX" "\<bar>valueOf OX\<bar> \<le> 2 * 10 ^ 12"
  shows "lessThanOneApart
           ((x - OX) / Fin s / Fin p * Fin p / Fin p * Fin p * Fin s + OX) x"
proof -
  have pp: "(0::real) < 1 / 10 ^ 25" "(0::real) < 1 / 10 ^ 12" by simp_all
  have bs: "0 < s" "s \<noteq> 0" "\<bar>1 / s\<bar> \<le> 10 ^ 25" "1 / s \<le> 10 ^ 25"
    using inverse_bound [OF pp(1) s(1)] by simp_all
  have bp: "0 < p" "p \<noteq> 0" "\<bar>1 / p\<bar> \<le> 10 ^ 12" "1 / p \<le> 10 ^ 12"
    using inverse_bound [OF pp(2) p(1)] by simp_all
  have ab: "\<bar>s\<bar> \<le> 10 ^ 25" "\<bar>p\<bar> \<le> 10 ^ 12"
    using bs(1) bp(1) s p by simp_all
  define d where "d = x - OX"
  define q where "q = d / Fin s"
  define n where "n = q / Fin p"
  define t where "t = n * Fin p"
  define n' where "n' = t / Fin p"
  define t' where "t' = n' * Fin p"
  define q' where "q' = t' * Fin s"
  define r where "r = q' + OX"
  have d: "isFinite d"
    "\<bar>valueOf d - (valueOf x - valueOf OX)\<bar>
       \<le> \<bar>valueOf x - valueOf OX\<bar> / 2 ^ 53 + 1 / 2 ^ 1075"
    "\<bar>valueOf d\<bar> \<le> 10 ^ 13"
    unfolding d_def by (rule sub_round [OF x(1) o(1) x(2) o(2), where W = "10 ^ 13"], simp, simp)+
  have q: "isFinite q"
    "\<bar>valueOf q - valueOf d / s\<bar> \<le> \<bar>valueOf d / s\<bar> / 2 ^ 53 + 1 / 2 ^ 1075"
    "\<bar>valueOf q\<bar> \<le> 10 ^ 39"
    unfolding q_def by (rule div_round [OF d(1,3) bs(2,3), where W = "10 ^ 39"], simp, simp)+
  have n: "isFinite n"
    "\<bar>valueOf n - valueOf q / p\<bar> \<le> \<bar>valueOf q / p\<bar> / 2 ^ 53 + 1 / 2 ^ 1075"
    "\<bar>valueOf n\<bar> \<le> 10 ^ 52"
    unfolding n_def by (rule div_round [OF q(1,3) bp(2,3), where W = "10 ^ 52"], simp, simp)+
  have t: "isFinite t"
    "\<bar>valueOf t - valueOf n * p\<bar> \<le> \<bar>valueOf n * p\<bar> / 2 ^ 53 + 1 / 2 ^ 1075"
    "\<bar>valueOf t\<bar> \<le> 10 ^ 65"
    unfolding t_def by (rule mul_round [OF n(1,3) ab(2), where W = "10 ^ 65"], simp, simp)+
  have n': "isFinite n'"
    "\<bar>valueOf n' - valueOf t / p\<bar> \<le> \<bar>valueOf t / p\<bar> / 2 ^ 53 + 1 / 2 ^ 1075"
    "\<bar>valueOf n'\<bar> \<le> 10 ^ 78"
    unfolding n'_def by (rule div_round [OF t(1,3) bp(2,3), where W = "10 ^ 78"], simp, simp)+
  have t': "isFinite t'"
    "\<bar>valueOf t' - valueOf n' * p\<bar> \<le> \<bar>valueOf n' * p\<bar> / 2 ^ 53 + 1 / 2 ^ 1075"
    "\<bar>valueOf t'\<bar> \<le> 10 ^ 91"
    unfolding t'_def by (rule mul_round [OF n'(1,3) ab(2), where W = "10 ^ 91"], simp, simp)+
  have q': "isFinite q'"
    "\<bar>valueOf q' - valueOf t' * s\<bar> \<le> \<bar>valueOf t' * s\<bar> / 2 ^ 53 + 1 / 2 ^ 1075"
    "\<bar>valueOf q'\<bar> \<le> 10 ^ 117"
    unfolding q'_def by (rule mul_round [OF t'(1,3) ab(1), where W = "10 ^ 117"], simp, simp)+
  have r: "isFinite r"
    "\<bar>valueOf r - (valueOf q' + valueOf OX)\<bar>
       \<le> \<bar>valueOf q' + valueOf OX\<bar> / 2 ^ 53 + 1 / 2 ^ 1075"
    unfolding r_def
    by (rule add_round [OF q'(1) o(1) q'(3) o(2), where W = "10 ^ 118"], simp, simp)+
  have f: "\<bar>valueOf n - (valueOf x - valueOf OX) / s / p\<bar>
      \<le> 3 * \<bar>(valueOf x - valueOf OX) / s / p\<bar> / 2 ^ 52 + 1 / 10 ^ 270"
    by (rule forward_real [OF bs(1,4) bp(1,4) d(2) q(2) n(2)])
  have "\<bar>valueOf r - valueOf x\<bar> < 1"
    by (rule roundtrip_x_real [OF bs(1) s(2) bp(1) p(2) bp(4) x(2) o(2) f t(2) n'(2) t'(2)
          q'(2) r(2)])
  then show ?thesis
    using r(1) x(1)
    by (simp add: lessThanOneApart_def r_def q'_def t'_def n'_def t_def n_def q_def d_def)
qed

lemma y_chain:
  assumes s: "1 / 10 ^ 25 \<le> s" "s \<le> 10 ^ 25" and p: "1 / 10 ^ 12 \<le> p" "p \<le> 10 ^ 12"
    and S: "p * s \<le> 2 * 10 ^ 12"
    and y: "isFinite y" "\<bar>valueOf y\<bar> \<le> 10 ^ 12"
    and o: "isFinite OY" "\<bar>valueOf OY\<bar> \<le> 2 * 10 ^ 12"
    and h: "isFinite h" "\<bar>valueOf h\<bar> \<le> 10 ^ 12"
    and NY: "NY = (y - OY) / Fin s / Fin p" "clampUnit NY = NY"
    and NH: "NH = h / Fin s / Fin p" "clampUnit NH = NH"
  shows "lessThanOneApart
           ((Fin p - ((Fin p - (NY + NH) * Fin p) + NH * Fin p)) / Fin p * Fin p * Fin s + OY) y"
proof -
  have pp: "(0::real) < 1 / 10 ^ 25" "(0::real) < 1 / 10 ^ 12" by simp_all
  have bs: "0 < s" "s \<noteq> 0" "\<bar>1 / s\<bar> \<le> 10 ^ 25" "1 / s \<le> 10 ^ 25"
    using inverse_bound [OF pp(1) s(1)] by simp_all
  have bp: "0 < p" "p \<noteq> 0" "\<bar>1 / p\<bar> \<le> 10 ^ 12" "1 / p \<le> 10 ^ 12"
    using inverse_bound [OF pp(2) p(1)] by simp_all
  have ab: "\<bar>s\<bar> \<le> 10 ^ 25" "\<bar>p\<bar> \<le> 10 ^ 12"
    using bs(1) bp(1) s p by simp_all
  \<comment> \<open>the forward normalization\<close>
  define d where "d = y - OY"
  define q where "q = d / Fin s"
  have d: "isFinite d"
    "\<bar>valueOf d - (valueOf y - valueOf OY)\<bar>
       \<le> \<bar>valueOf y - valueOf OY\<bar> / 2 ^ 53 + 1 / 2 ^ 1075"
    "\<bar>valueOf d\<bar> \<le> 10 ^ 13"
    unfolding d_def by (rule sub_round [OF y(1) o(1) y(2) o(2), where W = "10 ^ 13"], simp, simp)+
  have q: "isFinite q"
    "\<bar>valueOf q - valueOf d / s\<bar> \<le> \<bar>valueOf d / s\<bar> / 2 ^ 53 + 1 / 2 ^ 1075"
    "\<bar>valueOf q\<bar> \<le> 10 ^ 39"
    unfolding q_def by (rule div_round [OF d(1,3) bs(2,3), where W = "10 ^ 39"], simp, simp)+
  have n: "isFinite NY"
    "\<bar>valueOf NY - valueOf q / p\<bar> \<le> \<bar>valueOf q / p\<bar> / 2 ^ 53 + 1 / 2 ^ 1075"
    unfolding NY(1) d_def [symmetric] q_def [symmetric]
    by (rule div_round [OF q(1,3) bp(2,3), where W = "10 ^ 52"], simp, simp)+
  have hq: "isFinite (h / Fin s)" "\<bar>valueOf (h / Fin s)\<bar> \<le> 10 ^ 38"
    by (rule div_round [OF h bs(2,3), where W = "10 ^ 38"], simp, simp)+
  have hn: "isFinite NH"
    unfolding NH(1) by (rule div_round [OF hq bp(2,3), where W = "10 ^ 51"], simp, simp)
  have "NY \<noteq> NaN" "NH \<noteq> NaN"
    using n(1) hn by auto
  then have unit: "0 \<le> valueOf NY" "valueOf NY \<le> 1" "0 \<le> valueOf NH" "valueOf NH \<le> 1"
    using clampUnit_id [OF NY(2)] clampUnit_id [OF NH(2)] by auto
  have f: "\<bar>valueOf NY - (valueOf y - valueOf OY) / s / p\<bar>
      \<le> 3 * \<bar>(valueOf y - valueOf OY) / s / p\<bar> / 2 ^ 52 + 1 / 10 ^ 270"
    by (rule forward_real [OF bs(1,4) bp(1,4) d(2) q(2) n(2)])
  have "\<bar>p * s\<bar> \<le> 2 * 10 ^ 12"
    using S bs(1) bp(1) by simp
  from approx_scale [OF f this]
  have "\<bar>valueOf NY * (p * s) - (valueOf y - valueOf OY) / s / p * (p * s)\<bar>
      \<le> 3 * \<bar>(valueOf y - valueOf OY) / s / p * (p * s)\<bar> / 2 ^ 52
        + 2 * 10 ^ 12 * (1 / 10 ^ 270)"
    by simp
  moreover have "(valueOf y - valueOf OY) / s / p * (p * s) = valueOf y - valueOf OY"
    using bs(2) bp(2) by simp
  moreover have "(2::real) * 10 ^ 12 * (1 / 10 ^ 270) \<le> 1 / 10 ^ 200"
    by simp
  ultimately have rel: "\<bar>valueOf NY * p * s - (valueOf y - valueOf OY)\<bar>
      \<le> 3 * \<bar>valueOf y - valueOf OY\<bar> / 2 ^ 52 + 1 / 10 ^ 200"
    by (simp add: mult.assoc)
  \<comment> \<open>to points and back\<close>
  define sm where "sm = NY + NH"
  define qq where "qq = sm * Fin p"
  define py where "py = Fin p - qq"
  define pH where "pH = NH * Fin p"
  define r1 where "r1 = py + pH"
  define ny where "ny = Fin p - r1"
  define nt where "nt = ny / Fin p"
  define r2 where "r2 = nt * Fin p"
  define r3 where "r3 = r2 * Fin s"
  define r where "r = r3 + OY"
  have u1: "\<bar>valueOf NY\<bar> \<le> 1" "\<bar>valueOf NH\<bar> \<le> 1"
    using unit by simp_all
  have sm: "isFinite sm"
    "\<bar>valueOf sm - (valueOf NY + valueOf NH)\<bar>
       \<le> \<bar>valueOf NY + valueOf NH\<bar> / 2 ^ 53 + 1 / 2 ^ 1075"
    "\<bar>valueOf sm\<bar> \<le> 5"
    unfolding sm_def by (rule add_round [OF n(1) hn u1, where W = 5], simp, simp)+
  have qq: "isFinite qq"
    "\<bar>valueOf qq - valueOf sm * p\<bar> \<le> \<bar>valueOf sm * p\<bar> / 2 ^ 53 + 1 / 2 ^ 1075"
    "\<bar>valueOf qq\<bar> \<le> 10 ^ 14"
    unfolding qq_def by (rule mul_round [OF sm(1,3) ab(2), where W = "10 ^ 14"], simp, simp)+
  have py: "isFinite py"
    "\<bar>valueOf py - (p - valueOf qq)\<bar> \<le> \<bar>p - valueOf qq\<bar> / 2 ^ 53 + 1 / 2 ^ 1075"
    "\<bar>valueOf py\<bar> \<le> 10 ^ 15"
    unfolding py_def by (rule rsub_round [OF qq(1) ab(2) qq(3), where W = "10 ^ 15"], simp, simp)+
  have pH: "isFinite pH"
    "\<bar>valueOf pH - valueOf NH * p\<bar> \<le> \<bar>valueOf NH * p\<bar> / 2 ^ 53 + 1 / 2 ^ 1075"
    "\<bar>valueOf pH\<bar> \<le> 10 ^ 13"
    unfolding pH_def by (rule mul_round [OF hn u1(2) ab(2), where W = "10 ^ 13"], simp, simp)+
  have r1: "isFinite r1"
    "\<bar>valueOf r1 - (valueOf py + valueOf pH)\<bar>
       \<le> \<bar>valueOf py + valueOf pH\<bar> / 2 ^ 53 + 1 / 2 ^ 1075"
    "\<bar>valueOf r1\<bar> \<le> 10 ^ 16"
    unfolding r1_def
    by (rule add_round [OF py(1) pH(1) py(3) pH(3), where W = "10 ^ 16"], simp, simp)+
  have ny: "isFinite ny"
    "\<bar>valueOf ny - (p - valueOf r1)\<bar> \<le> \<bar>p - valueOf r1\<bar> / 2 ^ 53 + 1 / 2 ^ 1075"
    "\<bar>valueOf ny\<bar> \<le> 10 ^ 17"
    unfolding ny_def by (rule rsub_round [OF r1(1) ab(2) r1(3), where W = "10 ^ 17"], simp, simp)+
  have nt: "isFinite nt"
    "\<bar>valueOf nt - valueOf ny / p\<bar> \<le> \<bar>valueOf ny / p\<bar> / 2 ^ 53 + 1 / 2 ^ 1075"
    "\<bar>valueOf nt\<bar> \<le> 10 ^ 30"
    unfolding nt_def by (rule div_round [OF ny(1,3) bp(2,3), where W = "10 ^ 30"], simp, simp)+
  have r2: "isFinite r2"
    "\<bar>valueOf r2 - valueOf nt * p\<bar> \<le> \<bar>valueOf nt * p\<bar> / 2 ^ 53 + 1 / 2 ^ 1075"
    "\<bar>valueOf r2\<bar> \<le> 10 ^ 43"
    unfolding r2_def by (rule mul_round [OF nt(1,3) ab(2), where W = "10 ^ 43"], simp, simp)+
  have r3: "isFinite r3"
    "\<bar>valueOf r3 - valueOf r2 * s\<bar> \<le> \<bar>valueOf r2 * s\<bar> / 2 ^ 53 + 1 / 2 ^ 1075"
    "\<bar>valueOf r3\<bar> \<le> 10 ^ 69"
    unfolding r3_def by (rule mul_round [OF r2(1,3) ab(1), where W = "10 ^ 69"], simp, simp)+
  have r: "isFinite r"
    "\<bar>valueOf r - (valueOf r3 + valueOf OY)\<bar>
       \<le> \<bar>valueOf r3 + valueOf OY\<bar> / 2 ^ 53 + 1 / 2 ^ 1075"
    unfolding r_def
    by (rule add_round [OF r3(1) o(1) r3(3) o(2), where W = "10 ^ 70"], simp, simp)+
  have s26: "1 / 10 ^ 26 \<le> s"
  proof -
    have "(1::real) / 10 ^ 26 \<le> 1 / 10 ^ 25" by simp
    then show ?thesis using s(1) by linarith
  qed
  have "\<bar>valueOf r - valueOf y\<bar> < 1"
    by (rule roundtrip_y_real [OF p(1) s26 S unit y(2) o(2) rel sm(2) qq(2) py(2) pH(2)
          r1(2) ny(2) nt(2) r2(2) r3(2) r(2)])
  then show ?thesis
    using r(1) y(1)
    by (simp add: lessThanOneApart_def r_def r3_def r2_def nt_def ny_def r1_def pH_def
        py_def qq_def sm_def)
qed

section \<open>C1: the round trip\<close>

text \<open>
  C1, as the specification states it, fails for large coordinates: the error of the round
  trip grows with the magnitude of the numbers. On a page of 1 by 1 in a viewport of
  \<open>22 * 2^50\<close> by \<open>22 * 2^50\<close>, the rectangle at \<open>x = 15 * 2^50\<close> of width and height
  \<open>2^50\<close> is normalized without clamping, and the reverse transform returns
  \<open>x = 15 * 2^50 - 2\<close>, two units away from the original.
\<close>

theorem roundtrip_can_be_two_units_off:
  "transformFrontendToPDF
     (Some \<lparr>rect_x = Fin (15 * 2 ^ 50), rect_y = Fin 0, rect_width = Fin (2 ^ 50),
            rect_height = Fin (2 ^ 50)\<rparr>)
     (Some \<lparr>dims_width = Fin (22 * 2 ^ 50), dims_height = Fin (22 * 2 ^ 50)\<rparr>)
     (Some \<lparr>dims_width = Fin 1, dims_height = Fin 1\<rparr>)
   = Inr \<lparr>pdf_points =
            \<lparr>rect_x = Fin (6141272219141585 / 9007199254740992),
             rect_y = Fin (2149445276699555 / 2251799813685248),
             rect_width = Fin (3275345183542179 / 72057594037927936),
             rect_height = Fin (3275345183542179 / 72057594037927936)\<rparr>,
          pdf_normalized =
            unclampedNormalized
              \<lparr>rect_x = Fin (15 * 2 ^ 50), rect_y = Fin 0, rect_width = Fin (2 ^ 50),
               rect_height = Fin (2 ^ 50)\<rparr>
              \<lparr>dims_width = Fin (22 * 2 ^ 50), dims_height = Fin (22 * 2 ^ 50)\<rparr>
              \<lparr>dims_width = Fin 1, dims_height = Fin 1\<rparr>\<rparr>
   \<and> transformPDFToFrontend
       \<lparr>rect_x = Fin (6141272219141585 / 9007199254740992),
        rect_y = Fin (2149445276699555 / 2251799813685248),
        rect_width = Fin (3275345183542179 / 72057594037927936),
        rect_height = Fin (3275345183542179 / 72057594037927936)\<rparr>
       \<lparr>dims_width = Fin (22 * 2 ^ 50), dims_height = Fin (22 * 2 ^ 50)\<rparr>
       \<lparr>dims_width = Fin 1, dims_height = Fin 1\<rparr>
     = \<lparr>rect_x = Fin (15 * 2 ^ 50 - 2), rect_y = Fin 0, rect_width = Fin (2 ^ 50),
        rect_height = Fin (2 ^ 50)\<rparr>
   \<and> \<not> withinOne
       \<lparr>rect_x = Fin (15 * 2 ^ 50 - 2), rect_y = Fin 0, rect_width = Fin (2 ^ 50),
        rect_height = Fin (2 ^ 50)\<rparr>
       \<lparr>rect_x = Fin (15 * 2 ^ 50), rect_y = Fin 0, rect_width = Fin (2 ^ 50),
        rect_height = Fin (2 ^ 50)\<rparr>"
proof -
  let ?f = "\<lparr>rect_x = Fin (15 * 2 ^ 50), rect_y = Fin 0, rect_width = Fin (2 ^ 50),
             rect_height = Fin (2 ^ 50)\<rparr>"
  let ?c = "\<lparr>dims_width = Fin (22 * 2 ^ 50), dims_height = Fin (22 * 2 ^ 50)\<rparr>"
  let ?p = "\<lparr>dims_width = Fin 1, dims_height = Fin 1\<rparr>"
  let ?n = "\<lparr>rect_x = Fin (6141272219141585 / 9007199254740992), rect_y = Fin 0,
             rect_width = Fin (3275345183542179 / 72057594037927936),
             rect_height = Fin (3275345183542179 / 72057594037927936)\<rparr>"
  have u: "unclampedNormalized ?f ?c ?p = ?n"
    by (simp add: unclampedNormalized_def Let_def minus_jsnum_def toDouble_eval)
  have t: "transformFrontendToPDF (Some ?f) (Some ?c) (Some ?p)
      = Inr \<lparr>pdf_points =
            \<lparr>rect_x = Fin (6141272219141585 / 9007199254740992),
             rect_y = Fin (2149445276699555 / 2251799813685248),
             rect_width = Fin (3275345183542179 / 72057594037927936),
             rect_height = Fin (3275345183542179 / 72057594037927936)\<rparr>,
          pdf_normalized = ?n\<rparr>"
    by (simp add: transformFrontendToPDF_def normalizeFrontendCoordinates_def u [simplified]
        clampUnit_def normalizedToPDFPoints_def Let_def minus_jsnum_def toDouble_eval)
  have b: "transformPDFToFrontend
       \<lparr>rect_x = Fin (6141272219141585 / 9007199254740992),
        rect_y = Fin (2149445276699555 / 2251799813685248),
        rect_width = Fin (3275345183542179 / 72057594037927936),
        rect_height = Fin (3275345183542179 / 72057594037927936)\<rparr> ?c ?p
     = \<lparr>rect_x = Fin (15 * 2 ^ 50 - 2), rect_y = Fin 0, rect_width = Fin (2 ^ 50),
        rect_height = Fin (2 ^ 50)\<rparr>"
    by (simp add: transformPDFToFrontend_def Let_def minus_jsnum_def toDouble_eval)
  have w: "\<not> withinOne
       \<lparr>rect_x = Fin (15 * 2 ^ 50 - 2), rect_y = Fin 0, rect_width = Fin (2 ^ 50),
        rect_height = Fin (2 ^ 50)\<rparr> ?f"
    by (simp add: withinOne_def lessThanOneApart_def)
  show ?thesis
    unfolding u using t b w unfolding u by blast
qed

lemma small_ratio:
  fixes a b :: real
  assumes "1 / 10 ^ 12 \<le> a" "a \<le> 10 ^ 12" "1 / 10 ^ 12 \<le> b" "b \<le> 10 ^ 12"
  shows "1 / 10 ^ 25 \<le> round53 (a / b)" and "round53 (a / b) \<le> 10 ^ 25"
proof -
  have p: "(0::real) < 1 / 10 ^ 12" by simp
  have lo: "1 / 10 ^ 12 / 10 ^ 12 \<le> a / b" and hi: "a / b \<le> 10 ^ 12 / (1 / 10 ^ 12)"
    and pos: "0 < a / b"
    using quotient_bounds [OF p assms(1,2) p assms(3,4)] by blast+
  have r: "a / b * (9007199254740991 / 9007199254740992) \<le> round53 (a / b)"
    "round53 (a / b) \<le> a / b * (9007199254740993 / 9007199254740992)"
    using pos by (intro round53_ratio_bounds, simp)+
  show "1 / 10 ^ 25 \<le> round53 (a / b)"
    using r(1) lo by simp
  show "round53 (a / b) \<le> 10 ^ 25"
    using r(2) hi by simp
qed

text \<open>
  C1, amended. Forward then reverse, with the same viewport and page, returns a rectangle
  whose four fields each differ from the original by less than one unit, provided the
  forward transform clamped nothing (its normalized rectangle is the unclamped one), the
  dimensions of the viewport and of the page lie between \<open>10^-12\<close> and \<open>10^12\<close>, and the
  four fields of the rectangle are at most \<open>10^12\<close> in absolute value.
\<close>

theorem roundtrip_within_one_unit:
  assumes "dimsBetween (1 / 10 ^ 12) (10 ^ 12) containerSize"
    and "dimsBetween (1 / 10 ^ 12) (10 ^ 12) pdfPageSize"
    and "rectWithin (10 ^ 12) frontendCoords"
    and "transformFrontendToPDF (Some frontendCoords) (Some containerSize) (Some pdfPageSize)
           = Inr res"
    and "pdf_normalized res = unclampedNormalized frontendCoords containerSize pdfPageSize"
  shows "withinOne (transformPDFToFrontend (pdf_points res) containerSize pdfPageSize)
           frontendCoords"
proof -
  have pp: "(0::real) < 1 / 10 ^ 12" by simp
  have lu: "(1::real) / 10 ^ 100 \<le> 1 / 10 ^ 12" "(10::real) ^ 12 \<le> 10 ^ 100" by simp_all
  obtain cw ch where c: "containerSize = \<lparr>dims_width = Fin cw, dims_height = Fin ch\<rparr>"
    and cb: "1 / 10 ^ 12 \<le> cw" "cw \<le> 10 ^ 12" "1 / 10 ^ 12 \<le> ch" "ch \<le> 10 ^ 12"
    using assms(1) unfolding dimsBetween_iff [OF pp] by blast
  obtain pw ph where p: "pdfPageSize = \<lparr>dims_width = Fin pw, dims_height = Fin ph\<rparr>"
    and pb: "1 / 10 ^ 12 \<le> pw" "pw \<le> 10 ^ 12" "1 / 10 ^ 12 \<le> ph" "ph \<le> 10 ^ 12"
    using assms(2) unfolding dimsBetween_iff [OF pp] by blast
  have cB: "1 / 10 ^ 100 \<le> cw" "cw \<le> 10 ^ 100" "1 / 10 ^ 100 \<le> ch" "ch \<le> 10 ^ 100"
    and pB: "1 / 10 ^ 100 \<le> pw" "pw \<le> 10 ^ 100" "1 / 10 ^ 100 \<le> ph" "ph \<le> 10 ^ 100"
    using cb pb lu by linarith+
  obtain s OX OY where sd: "s = round53 (cw / pw) \<or> s = round53 (ch / ph)"
    and ps: "ph * s \<le> 2 * ch"
    and o: "isFinite OX" "\<bar>valueOf OX\<bar> \<le> 2 * cw" "isFinite OY" "\<bar>valueOf OY\<bar> \<le> 2 * ch"
    and u: "\<And>f. unclampedNormalized f \<lparr>dims_width = Fin cw, dims_height = Fin ch\<rparr>
            \<lparr>dims_width = Fin pw, dims_height = Fin ph\<rparr>
        = \<lparr>rect_x = (rect_x f - OX) / Fin s / Fin pw,
           rect_y = (rect_y f - OY) / Fin s / Fin ph,
           rect_width = rect_width f / Fin s / Fin pw,
           rect_height = rect_height f / Fin s / Fin ph\<rparr>"
    and tr: "\<And>q. transformPDFToFrontend q \<lparr>dims_width = Fin cw, dims_height = Fin ch\<rparr>
            \<lparr>dims_width = Fin pw, dims_height = Fin ph\<rparr>
        = \<lparr>rect_x = rect_x q / Fin pw * Fin pw * Fin s + OX,
           rect_y = (Fin ph - (rect_y q + rect_height q)) / Fin ph * Fin ph * Fin s + OY,
           rect_width = rect_width q * Fin s,
           rect_height = rect_height q * Fin s\<rparr>"
    using fit_parameters [OF cB pB] by blast
  have sb: "1 / 10 ^ 25 \<le> s" "s \<le> 10 ^ 25"
    using sd small_ratio [OF cb(1,2) pb(1,2)] small_ratio [OF cb(3,4) pb(3,4)] by auto
  have ob: "\<bar>valueOf OX\<bar> \<le> 2 * 10 ^ 12" "\<bar>valueOf OY\<bar> \<le> 2 * 10 ^ 12"
    and S: "ph * s \<le> 2 * 10 ^ 12"
    using o cb ps by linarith+
  have fr: "isFinite (rect_x frontendCoords)" "isFinite (rect_y frontendCoords)"
    "isFinite (rect_width frontendCoords)" "isFinite (rect_height frontendCoords)"
    and fb: "\<bar>valueOf (rect_x frontendCoords)\<bar> \<le> 10 ^ 12"
    "\<bar>valueOf (rect_y frontendCoords)\<bar> \<le> 10 ^ 12"
    "\<bar>valueOf (rect_width frontendCoords)\<bar> \<le> 10 ^ 12"
    "\<bar>valueOf (rect_height frontendCoords)\<bar> \<le> 10 ^ 12"
    using assms(3) by (simp_all add: rectWithin_iff finiteRect_def)
  define NY where "NY = (rect_y frontendCoords - OY) / Fin s / Fin ph"
  define NH where "NH = rect_height frontendCoords / Fin s / Fin ph"
  have pts: "pdf_points res = normalizedToPDFPoints (pdf_normalized res) pdfPageSize"
    and nn: "normalizeFrontendCoordinates (Some frontendCoords) (Some containerSize)
              (Some pdfPageSize) = Inr (pdf_normalized res)"
    using assms(4)
    by (auto simp add: transformFrontendToPDF_def split: sum.splits)
  have "\<lparr>rect_x = clampUnit ((rect_x frontendCoords - OX) / Fin s / Fin pw),
         rect_y = clampUnit NY,
         rect_width = clampUnit (rect_width frontendCoords / Fin s / Fin pw),
         rect_height = clampUnit NH\<rparr>
       = \<lparr>rect_x = (rect_x frontendCoords - OX) / Fin s / Fin pw,
         rect_y = NY,
         rect_width = rect_width frontendCoords / Fin s / Fin pw,
         rect_height = NH\<rparr>"
    using nn assms(5) by (simp add: normalizeFrontendCoordinates_def c p u NY_def NH_def)
  then have cl: "clampUnit NY = NY" "clampUnit NH = NH"
    by simp_all
  have X: "lessThanOneApart
      ((rect_x frontendCoords - OX) / Fin s / Fin pw * Fin pw / Fin pw * Fin pw * Fin s + OX)
      (rect_x frontendCoords)"
    by (rule x_chain [OF sb pb(1,2) fr(1) fb(1) o(1) ob(1)])
  have W: "lessThanOneApart (rect_width frontendCoords / Fin s / Fin pw * Fin pw * Fin s)
      (rect_width frontendCoords)"
    by (rule w_chain [OF sb pb(1,2) fr(3) fb(3)])
  have H: "lessThanOneApart (NH * Fin ph * Fin s) (rect_height frontendCoords)"
    unfolding NH_def by (rule w_chain [OF sb pb(3,4) fr(4) fb(4)])
  have Y: "lessThanOneApart
      ((Fin ph - ((Fin ph - (NY + NH) * Fin ph) + NH * Fin ph)) / Fin ph * Fin ph * Fin s + OY)
      (rect_y frontendCoords)"
    by (rule y_chain [OF sb pb(3,4) S fr(2) fb(2) o(3) ob(2) fr(4) fb(4) NY_def cl(1)
          NH_def cl(2)])
  have "transformPDFToFrontend (pdf_points res) containerSize pdfPageSize
    = \<lparr>rect_x = (rect_x frontendCoords - OX) / Fin s / Fin pw * Fin pw / Fin pw * Fin pw
                 * Fin s + OX,
       rect_y = (Fin ph - ((Fin ph - (NY + NH) * Fin ph) + NH * Fin ph)) / Fin ph * Fin ph
                 * Fin s + OY,
       rect_width = rect_width frontendCoords / Fin s / Fin pw * Fin pw * Fin s,
       rect_height = NH * Fin ph * Fin s\<rparr>"
    by (simp add: pts assms(5) c p u tr normalizedToPDFPoints_def Let_def NY_def NH_def)
  then show ?thesis
    using X Y W H by (simp add: withinOne_def)
qed

theorem roundtrip_within_one_unit_witness:
  "transformFrontendToPDF
     (Some \<lparr>rect_x = Fin 2, rect_y = Fin 2, rect_width = Fin 2, rect_height = Fin 2\<rparr>)
     (Some \<lparr>dims_width = Fin 8, dims_height = Fin 8\<rparr>)
     (Some \<lparr>dims_width = Fin 4, dims_height = Fin 4\<rparr>)
   = Inr \<lparr>pdf_points =
            \<lparr>rect_x = Fin 1, rect_y = Fin 2, rect_width = Fin 1, rect_height = Fin 1\<rparr>,
          pdf_normalized =
            \<lparr>rect_x = Fin (1/4), rect_y = Fin (1/4), rect_width = Fin (1/4),
             rect_height = Fin (1/4)\<rparr>\<rparr>
   \<and> withinOne
     (transformPDFToFrontend
        \<lparr>rect_x = Fin 1, rect_y = Fin 2, rect_width = Fin 1, rect_height = Fin 1\<rparr>
        \<lparr>dims_width = Fin 8, dims_height = Fin 8\<rparr>
        \<lparr>dims_width = Fin 4, dims_height = Fin 4\<rparr>)
     \<lparr>rect_x = Fin 2, rect_y = Fin 2, rect_width = Fin 2, rect_height = Fin 2\<rparr>"
proof -
  let ?f = "\<lparr>rect_x = Fin 2, rect_y = Fin 2, rect_width = Fin 2, rect_height = Fin 2\<rparr>"
  let ?c = "\<lparr>dims_width = Fin 8, dims_height = Fin 8\<rparr>"
  let ?p = "\<lparr>dims_width = Fin 4, dims_height = Fin 4\<rparr>"
  let ?n = "\<lparr>rect_x = Fin (1/4), rect_y = Fin (1/4), rect_width = Fin (1/4),
             rect_height = Fin (1/4)\<rparr>"
  let ?res = "\<lparr>pdf_points =
                 \<lparr>rect_x = Fin 1, rect_y = Fin 2, rect_width = Fin 1, rect_height = Fin 1\<rparr>,
               pdf_normalized = ?n\<rparr>"
  have u: "unclampedNormalized ?f ?c ?p = ?n"
    by (simp add: unclampedNormalized_def Let_def minus_jsnum_def toDouble_eval)
  have t: "transformFrontendToPDF (Some ?f) (Some ?c) (Some ?p) = Inr ?res"
    by (simp add: transformFrontendToPDF_def normalizeFrontendCoordinates_def u
        clampUnit_def normalizedToPDFPoints_def minus_jsnum_def toDouble_eval)
  have "dimsBetween (1 / 10 ^ 12) (10 ^ 12) ?c" "dimsBetween (1 / 10 ^ 12) (10 ^ 12) ?p"
    "rectWithin (10 ^ 12) ?f"
    by (simp_all add: dimsBetween_def rectWithin_def)
  from roundtrip_within_one_unit [OF this t] u t show ?thesis by simp
qed

section \<open>The range of the normalized rectangle\<close>

lemma sub_notNaN: "v \<noteq> NaN \<Longrightarrow> isFinite d \<Longrightarrow> v - d \<noteq> NaN"
  by (cases v; cases d) (simp_all add: minus_jsnum_def)

lemma div_notNaN: "v \<noteq> NaN \<Longrightarrow> c \<noteq> 0 \<Longrightarrow> v / Fin c \<noteq> NaN"
  by (cases v) (simp_all add: infinity_def)

lemma div_nonpos: "v \<le> Fin 0 \<Longrightarrow> 0 < c \<Longrightarrow> v / Fin c \<le> Fin 0"
proof (cases v)
  case (Fin a)
  assume "v \<le> Fin 0" "0 < c"
  then have "a / c \<le> 0" using Fin by (simp add: divide_le_0_iff)
  then show ?thesis
    using Fin \<open>0 < c\<close> toDouble_nonpos [of "a / c"] by (simp add: div_finite)
next
  case NegZero
  assume "0 < c"
  then show ?thesis
    using NegZero toDouble_nonpos [of 0] by (simp add: div_finite)
qed (simp_all add: infinity_def)

lemma toDouble_lower:
  assumes "1 / 2 ^ 1022 \<le> x"
  shows "Fin (x * (9007199254740991 / 9007199254740992)) \<le> toDouble s x"
proof -
  have "(0::real) < 1 / 2 ^ 1022" by simp
  then have x: "0 < x" using assms by linarith
  then have "\<not> \<bar>x\<bar> < 1 / 2 ^ 1022" using assms by simp
  then have t: "toDouble s x =
      (if 2 ^ 1024 \<le> \<bar>round53 x\<bar> then infinity (x < 0) else Fin (round53 x))"
    unfolding toDouble_def Let_def by (simp only: if_False)
  have "x * (9007199254740991 / 9007199254740992) \<le> round53 x"
    using x by (intro round53_ratio_bounds)
  then show ?thesis
    using x by (simp only: t infinity_def split: if_splits) simp
qed

lemma div_lower:
  assumes "Fin t \<le> v" and "0 < c" and "1 / 2 ^ 1022 \<le> t / c"
  shows "Fin (t / c * (9007199254740991 / 9007199254740992)) \<le> v / Fin c"
proof (cases v)
  case (Fin a)
  then have "t \<le> a" using assms(1) by simp
  then have ta: "t / c \<le> a / c"
    using assms(2) by (simp add: divide_right_mono)
  then have "1 / 2 ^ 1022 \<le> a / c" using assms(3) by linarith
  then have "Fin (a / c * (9007199254740991 / 9007199254740992))
      \<le> toDouble (signBit (Fin a) \<noteq> signBit (Fin c)) (a / c)"
    by (rule toDouble_lower)
  moreover have "Fin (t / c * (9007199254740991 / 9007199254740992))
      \<le> Fin (a / c * (9007199254740991 / 9007199254740992))"
    using ta by simp
  moreover have "v / Fin c = toDouble (signBit (Fin a) \<noteq> signBit (Fin c)) (a / c)"
    using Fin assms(2) div_finite [of "Fin a" "Fin c"] by simp
  ultimately show ?thesis
    by (cases "toDouble (signBit (Fin a) \<noteq> signBit (Fin c)) (a / c)") simp_all
next
  case NegZero
  have "(0::real) < 1 / 2 ^ 1022" by simp
  then have "0 < t / c" using assms(3) by linarith
  then have "0 < t" using assms(2) by (simp add: zero_less_divide_iff)
  then show ?thesis using assms(1) NegZero by simp
next
  case PInf
  then show ?thesis using assms(2) by (simp add: infinity_def)
next
  case NInf
  then show ?thesis using assms(1) by simp
next
  case NaN
  then show ?thesis using assms(1) by simp
qed

lemma Fin_pos: "0 < t \<Longrightarrow> Fin t \<le> v \<Longrightarrow> Fin 0 < v"
  by (cases v) simp_all

text \<open>
  A quotient of the normalization: never \<open>NaN\<close> for a number that is not \<open>NaN\<close>, zero or
  below for a number that is so, and above zero for a number of at least \<open>10^-100\<close>.
\<close>

lemma normalized_extent:
  assumes "1 / 10 ^ 201 \<le> s" "s \<le> 10 ^ 201" "1 / 10 ^ 100 \<le> p" "p \<le> 10 ^ 100"
    and "p * s \<le> 2 * c" and "c \<le> 10 ^ 100"
  shows "v \<le> Fin 0 \<Longrightarrow> clampUnit (v / Fin s / Fin p) = Fin 0"
    and "Fin (1 / 10 ^ 100) \<le> v \<Longrightarrow> Fin 0 < clampUnit (v / Fin s / Fin p)"
proof -
  have pp: "(0::real) < 1 / 10 ^ 201" "(0::real) < 1 / 10 ^ 100" by simp_all
  have pos: "0 < s" "0 < p" using assms pp by linarith+
  show "clampUnit (v / Fin s / Fin p) = Fin 0" if "v \<le> Fin 0"
    using that pos by (intro clampUnit_nonpos div_nonpos)
  show "Fin 0 < clampUnit (v / Fin s / Fin p)" if v: "Fin (1 / 10 ^ 100) \<le> v"
  proof -
    define k :: real where "k = 9007199254740991 / 9007199254740992"
    have k: "0 < k" "1 / 2 \<le> k" by (simp_all add: k_def)
    have "1 / 10 ^ 100 / 10 ^ 201 \<le> 1 / 10 ^ 100 / s"
      using assms(2) pos by (intro divide_left_mono) simp_all
    moreover have "(1::real) / 2 ^ 1022 \<le> 1 / 10 ^ 100 / 10 ^ 201" by simp
    ultimately have "1 / 2 ^ 1022 \<le> 1 / 10 ^ 100 / s" by linarith
    from div_lower [OF v pos(1) this]
    have 1: "Fin (1 / 10 ^ 100 / s * k) \<le> v / Fin s"
      by (simp add: k_def)
    have ps: "0 < p * s" "p * s \<le> 2 * 10 ^ 100"
      using pos assms(5,6) by simp_all
    have "1 / 10 ^ 100 / s * k / p = (1 / 10 ^ 100 * k) / (p * s)"
      by simp
    moreover have "(1 / 10 ^ 100 * k) / (2 * 10 ^ 100) \<le> (1 / 10 ^ 100 * k) / (p * s)"
      using ps k by (intro divide_left_mono) simp_all
    moreover have "1 / 10 ^ 100 * (1 / 2) / (2 * 10 ^ 100) \<le> (1 / 10 ^ 100 * k) / (2 * 10 ^ 100)"
      using k by (intro divide_right_mono mult_left_mono) simp_all
    moreover have "(1::real) / 2 ^ 1022 \<le> 1 / 10 ^ 100 * (1 / 2) / (2 * 10 ^ 100)" by simp
    ultimately have 2: "1 / 2 ^ 1022 \<le> 1 / 10 ^ 100 / s * k / p" by linarith
    from div_lower [OF 1 pos(2) 2]
    have 3: "Fin (1 / 10 ^ 100 / s * k / p * k) \<le> v / Fin s / Fin p"
      by (simp add: k_def)
    have "0 < 1 / 10 ^ 100 / s * k / p * k"
      using pos k by simp
    from Fin_pos [OF this 3] show ?thesis
      by (simp add: clampUnit_pos_iff)
  qed
qed

text \<open>
  C2, as the specification states it, fails: a rectangle of width zero on the page is
  normalized to a rectangle of width zero, which \<open>isValidNormalizedCoordinate\<close> rejects.
\<close>

theorem normalized_rect_can_be_invalid:
  "normalizeFrontendCoordinates
     (Some \<lparr>rect_x = Fin 1, rect_y = Fin 1, rect_width = Fin 0, rect_height = Fin 1\<rparr>)
     (Some \<lparr>dims_width = Fin 4, dims_height = Fin 4\<rparr>)
     (Some \<lparr>dims_width = Fin 4, dims_height = Fin 4\<rparr>)
   = Inr \<lparr>rect_x = Fin (1/4), rect_y = Fin (1/4), rect_width = Fin 0,
          rect_height = Fin (1/4)\<rparr>
   \<and> \<not> isValidNormalizedCoordinate
       \<lparr>rect_x = Fin (1/4), rect_y = Fin (1/4), rect_width = Fin 0,
        rect_height = Fin (1/4)\<rparr>"
  by (simp add: normalizeFrontendCoordinates_def unclampedNormalized_def
      clampUnit_def isValidNormalizedCoordinate_def minus_jsnum_def toDouble_eval)

text \<open>
  C2, amended. For a viewport and a page whose dimensions lie between \<open>10^-100\<close> and
  \<open>10^100\<close> and a rectangle none of whose fields is \<open>NaN\<close>, the normalized rectangle has each
  of its four fields between 0 and 1; its width is zero when the width of the input is
  zero or below, and above zero when the width of the input is at least \<open>10^-100\<close>, and
  so for the height. Nothing is said of the sums \<open>x + width\<close> and \<open>y + height\<close>.
\<close>

theorem normalized_components_in_unit_range:
  assumes "dimsBetween (1 / 10 ^ 100) (10 ^ 100) containerSize"
    and "dimsBetween (1 / 10 ^ 100) (10 ^ 100) pdfPageSize"
    and "noNaN frontendCoords"
  shows "\<exists>n. normalizeFrontendCoordinates (Some frontendCoords) (Some containerSize)
                (Some pdfPageSize) = Inr n \<and>
          Fin 0 \<le> rect_x n \<and> rect_x n \<le> Fin 1 \<and>
          Fin 0 \<le> rect_y n \<and> rect_y n \<le> Fin 1 \<and>
          Fin 0 \<le> rect_width n \<and> rect_width n \<le> Fin 1 \<and>
          Fin 0 \<le> rect_height n \<and> rect_height n \<le> Fin 1 \<and>
          (rect_width frontendCoords \<le> Fin 0 \<longrightarrow> rect_width n = Fin 0) \<and>
          (Fin (1 / 10 ^ 100) \<le> rect_width frontendCoords \<longrightarrow> Fin 0 < rect_width n) \<and>
          (rect_height frontendCoords \<le> Fin 0 \<longrightarrow> rect_height n = Fin 0) \<and>
          (Fin (1 / 10 ^ 100) \<le> rect_height frontendCoords \<longrightarrow> Fin 0 < rect_height n)"
proof -
  have pp: "(0::real) < 1 / 10 ^ 100" by simp
  obtain cw ch where c: "containerSize = \<lparr>dims_width = Fin cw, dims_height = Fin ch\<rparr>"
    and cb: "1 / 10 ^ 100 \<le> cw" "cw \<le> 10 ^ 100" "1 / 10 ^ 100 \<le> ch" "ch \<le> 10 ^ 100"
    using assms(1) unfolding dimsBetween_iff [OF pp] by blast
  obtain pw ph where p: "pdfPageSize = \<lparr>dims_width = Fin pw, dims_height = Fin ph\<rparr>"
    and pb: "1 / 10 ^ 100 \<le> pw" "pw \<le> 10 ^ 100" "1 / 10 ^ 100 \<le> ph" "ph \<le> 10 ^ 100"
    using assms(2) unfolding dimsBetween_iff [OF pp] by blast
  obtain s OX OY where s: "1 / 10 ^ 201 \<le> s" "s \<le> 10 ^ 201"
    and ps: "pw * s \<le> 2 * cw" "ph * s \<le> 2 * ch"
    and o: "isFinite OX" "isFinite OY"
    and u: "\<And>f. unclampedNormalized f \<lparr>dims_width = Fin cw, dims_height = Fin ch\<rparr>
            \<lparr>dims_width = Fin pw, dims_height = Fin ph\<rparr>
        = \<lparr>rect_x = (rect_x f - OX) / Fin s / Fin pw,
           rect_y = (rect_y f - OY) / Fin s / Fin ph,
           rect_width = rect_width f / Fin s / Fin pw,
           rect_height = rect_height f / Fin s / Fin ph\<rparr>"
    using fit_parameters [OF cb pb] by blast
  have q: "(0::real) < 1 / 10 ^ 201" by simp
  have nz: "s \<noteq> 0" "pw \<noteq> 0" "ph \<noteq> 0"
    using s pb pp q by linarith+
  have x: "(rect_x frontendCoords - OX) / Fin s / Fin pw \<noteq> NaN"
    and y: "(rect_y frontendCoords - OY) / Fin s / Fin ph \<noteq> NaN"
    and w: "rect_width frontendCoords / Fin s / Fin pw \<noteq> NaN"
    and h: "rect_height frontendCoords / Fin s / Fin ph \<noteq> NaN"
    using assms(3) o nz by (simp_all add: noNaN_def sub_notNaN div_notNaN)
  note ew = normalized_extent [OF s pb(1,2) ps(1) cb(2), of "rect_width frontendCoords"]
  note eh = normalized_extent [OF s pb(3,4) ps(2) cb(4), of "rect_height frontendCoords"]
  show ?thesis
    using clampUnit_range [OF x] clampUnit_range [OF y] clampUnit_range [OF w]
      clampUnit_range [OF h] ew eh
    by (simp add: normalizeFrontendCoordinates_def c p u)
qed

theorem normalized_components_in_unit_range_witness:
  "\<exists>n. normalizeFrontendCoordinates
          (Some \<lparr>rect_x = Fin 3, rect_y = NInf, rect_width = Fin 2, rect_height = Fin 0\<rparr>)
          (Some \<lparr>dims_width = Fin 4, dims_height = Fin 4\<rparr>)
          (Some \<lparr>dims_width = Fin 4, dims_height = Fin 4\<rparr>) = Inr n \<and>
        Fin 0 \<le> rect_x n \<and> rect_x n \<le> Fin 1 \<and>
        Fin 0 \<le> rect_y n \<and> rect_y n \<le> Fin 1 \<and>
        Fin 0 \<le> rect_width n \<and> rect_width n \<le> Fin 1 \<and>
        Fin 0 \<le> rect_height n \<and> rect_height n \<le> Fin 1 \<and>
        Fin 0 < rect_width n \<and> rect_height n = Fin 0"
proof -
  have "dimsBetween (1 / 10 ^ 100) (10 ^ 100) \<lparr>dims_width = Fin 4, dims_height = Fin 4\<rparr>"
    by (simp add: dimsBetween_def)
  moreover have "noNaN \<lparr>rect_x = Fin 3, rect_y = NInf, rect_width = Fin 2, rect_height = Fin 0\<rparr>"
    by (simp add: noNaN_def)
  ultimately show ?thesis
    using normalized_components_in_unit_range
      [of "\<lparr>dims_width = Fin 4, dims_height = Fin 4\<rparr>"
          "\<lparr>dims_width = Fin 4, dims_height = Fin 4\<rparr>"
          "\<lparr>rect_x = Fin 3, rect_y = NInf, rect_width = Fin 2, rect_height = Fin 0\<rparr>"]
    by simp
qed

section \<open>The right and bottom edges\<close>

text \<open>
  C7 on the code. The rectangle of the repository's own test "Boundary conditions -
  bottom-right corner" (an A4 page in a viewport of 1200 by 1600, the rectangle 50 by 50
  with its corner at the corner of the page scaled by width) exceeds the right and the
  bottom edge of the rendered page. Its normalized \<open>x + width\<close> and \<open>y + height\<close> are both
  above 1: each field is clamped on its own, the width is not cut at the edge. The same
  holds of the rectangle from 3 to 5 on a page 4 wide, shown in a viewport of its size.
\<close>

theorem right_edge_overshoot_not_clamped:
  "normalizeFrontendCoordinates
     (Some \<lparr>rect_x = Fin (round53 (round53 (round53 595.275591 * round53 (1200 / round53 595.275591)) - 50)),
            rect_y = Fin (round53 (round53 (round53 841.889764 * round53 (1200 / round53 595.275591)) - 50)),
            rect_width = Fin 50, rect_height = Fin 50\<rparr>)
     (Some \<lparr>dims_width = Fin 1200, dims_height = Fin 1600\<rparr>)
     (Some \<lparr>dims_width = Fin (round53 595.275591), dims_height = Fin (round53 841.889764)\<rparr>)
   = Inr \<lparr>rect_x = Fin (4441273024307147 / 4503599627370496), rect_y = Fin 1,
          rect_width = Fin (6369376612718251 / 144115188075855872),
          rect_height = Fin (1 / 32)\<rparr>
   \<and> Fin 1 < Fin (4441273024307147 / 4503599627370496)
               + Fin (6369376612718251 / 144115188075855872)
   \<and> Fin 1 < Fin 1 + Fin (1 / 32)
   \<and> normalizeFrontendCoordinates
     (Some \<lparr>rect_x = Fin 3, rect_y = Fin 0, rect_width = Fin 2, rect_height = Fin 1\<rparr>)
     (Some \<lparr>dims_width = Fin 4, dims_height = Fin 4\<rparr>)
     (Some \<lparr>dims_width = Fin 4, dims_height = Fin 4\<rparr>)
   = Inr \<lparr>rect_x = Fin (3/4), rect_y = Fin 0, rect_width = Fin (1/2),
          rect_height = Fin (1/4)\<rparr>
   \<and> Fin (3/4) + Fin (1/2) = Fin (5/4)"
  by (simp add: normalizeFrontendCoordinates_def unclampedNormalized_def clampUnit_def minus_jsnum_def toDouble_eval)

section \<open>The error path of the normalization\<close>

text \<open>
  C4, as the specification states it, fails: with a container of height zero the function
  divides by zero without a word and returns a rectangle, one field of which is \<open>NaN\<close>;
  with a container of negative dimensions it returns a rectangle as well.
\<close>

theorem degenerate_geometry_returns_rectangle:
  "normalizeFrontendCoordinates
     (Some \<lparr>rect_x = Fin 3, rect_y = Fin 0, rect_width = Fin 2, rect_height = Fin 1\<rparr>)
     (Some \<lparr>dims_width = Fin 4, dims_height = Fin 0\<rparr>)
     (Some \<lparr>dims_width = Fin 4, dims_height = Fin 4\<rparr>)
   = Inr \<lparr>rect_x = Fin 1, rect_y = NaN, rect_width = Fin 1, rect_height = Fin 1\<rparr>
   \<and> normalizeFrontendCoordinates
     (Some \<lparr>rect_x = Fin (- 1), rect_y = Fin (- 1), rect_width = Fin (- 1),
            rect_height = Fin (- 1)\<rparr>)
     (Some \<lparr>dims_width = Fin (- 4), dims_height = Fin (- 4)\<rparr>)
     (Some \<lparr>dims_width = Fin 4, dims_height = Fin 4\<rparr>)
   = Inr \<lparr>rect_x = Fin (1/4), rect_y = Fin (1/4), rect_width = Fin (1/4),
          rect_height = Fin (1/4)\<rparr>"
  by (simp add: normalizeFrontendCoordinates_def unclampedNormalized_def clampUnit_def
      minus_jsnum_def toDouble_eval)

text \<open>
  C4, amended. \<open>normalizeFrontendCoordinates\<close> has one error path, the missing-parameters
  error, taken exactly when one of its three arguments is absent. When the three are
  present it throws nothing whatever the numbers are, zero and negative dimensions
  included, and returns a rectangle each field of which is a number between 0 and 1 or
  \<open>NaN\<close>.
\<close>

theorem only_error_is_missing_parameters:
  "(normalizeFrontendCoordinates frontendCoords containerSize pdfPageSize = Inl e) =
     (e = missingParameters \<and>
      (frontendCoords = None \<or> containerSize = None \<or> pdfPageSize = None))
   \<and> (\<exists>n. normalizeFrontendCoordinates (Some f) (Some c) (Some p) = Inr n \<and>
          unitOrNaN (rect_x n) \<and> unitOrNaN (rect_y n) \<and>
          unitOrNaN (rect_width n) \<and> unitOrNaN (rect_height n))"
proof
  show "(normalizeFrontendCoordinates frontendCoords containerSize pdfPageSize = Inl e) =
     (e = missingParameters \<and>
      (frontendCoords = None \<or> containerSize = None \<or> pdfPageSize = None))"
    by (auto simp add: normalizeFrontendCoordinates_def Let_def split: option.splits)
  show "\<exists>n. normalizeFrontendCoordinates (Some f) (Some c) (Some p) = Inr n \<and>
          unitOrNaN (rect_x n) \<and> unitOrNaN (rect_y n) \<and>
          unitOrNaN (rect_width n) \<and> unitOrNaN (rect_height n)"
    by (simp add: normalizeFrontendCoordinates_def Let_def clampUnit_unitOrNaN)
qed

theorem only_error_is_missing_parameters_witness:
  "normalizeFrontendCoordinates
     (Some \<lparr>rect_x = Fin 3, rect_y = Fin 0, rect_width = Fin 2, rect_height = Fin 1\<rparr>)
     None (Some \<lparr>dims_width = Fin 4, dims_height = Fin 4\<rparr>) = Inl missingParameters
   \<and> (\<exists>n. normalizeFrontendCoordinates
          (Some \<lparr>rect_x = Fin 3, rect_y = Fin 0, rect_width = Fin 2, rect_height = Fin 1\<rparr>)
          (Some \<lparr>dims_width = Fin 0, dims_height = Fin 0\<rparr>)
          (Some \<lparr>dims_width = Fin 4, dims_height = Fin 4\<rparr>) = Inr n \<and>
          unitOrNaN (rect_x n) \<and> unitOrNaN (rect_y n) \<and>
          unitOrNaN (rect_width n) \<and> unitOrNaN (rect_height n))"
  using only_error_is_missing_parameters
    [of "Some \<lparr>rect_x = Fin 3, rect_y = Fin 0, rect_width = Fin 2, rect_height = Fin 1\<rparr>"
        None "Some \<lparr>dims_width = Fin 4, dims_height = Fin 4\<rparr>" missingParameters
        "\<lparr>rect_x = Fin 3, rect_y = Fin 0, rect_width = Fin 2, rect_height = Fin 1\<rparr>"
        "\<lparr>dims_width = Fin 0, dims_height = Fin 0\<rparr>"
        "\<lparr>dims_width = Fin 4, dims_height = Fin 4\<rparr>"]
  by simp

text \<open>
  C9. When the coordinates, the container size or the page size is absent,
  \<open>normalizeFrontendCoordinates\<close> throws the missing-parameters error, whatever the other
  arguments hold, and \<open>transformFrontendToPDF\<close> passes the error on.
\<close>

theorem missing_parameters_error:
  assumes "frontendCoords = None \<or> containerSize = None \<or> pdfPageSize = None"
  shows "normalizeFrontendCoordinates frontendCoords containerSize pdfPageSize
           = Inl missingParameters
       \<and> transformFrontendToPDF frontendCoords containerSize pdfPageSize
           = Inl missingParameters"
  using assms
  by (auto simp add: normalizeFrontendCoordinates_def transformFrontendToPDF_def
      split: option.splits)

theorem missing_parameters_error_witness:
  "normalizeFrontendCoordinates None
     (Some \<lparr>dims_width = Fin 0, dims_height = NaN\<rparr>)
     (Some \<lparr>dims_width = Fin 4, dims_height = Fin 4\<rparr>)
     = Inl (Error [Str ''Missing required parameters for coordinate normalization''])
   \<and> transformFrontendToPDF None
     (Some \<lparr>dims_width = Fin 0, dims_height = NaN\<rparr>)
     (Some \<lparr>dims_width = Fin 4, dims_height = Fin 4\<rparr>)
     = Inl (Error [Str ''Missing required parameters for coordinate normalization''])
   \<and> transformFrontendToPDF
     (Some \<lparr>rect_x = Fin 1, rect_y = Fin 1, rect_width = Fin 1, rect_height = Fin 1\<rparr>)
     None (Some \<lparr>dims_width = Fin 4, dims_height = Fin 4\<rparr>)
     = Inl (Error [Str ''Missing required parameters for coordinate normalization''])
   \<and> transformFrontendToPDF
     (Some \<lparr>rect_x = Fin 1, rect_y = Fin 1, rect_width = Fin 1, rect_height = Fin 1\<rparr>)
     (Some \<lparr>dims_width = Fin 4, dims_height = Fin 4\<rparr>) None
     = Inl (Error [Str ''Missing required parameters for coordinate normalization''])"
  using missing_parameters_error
    [of None "Some \<lparr>dims_width = Fin 0, dims_height = NaN\<rparr>"
        "Some \<lparr>dims_width = Fin 4, dims_height = Fin 4\<rparr>"]
    missing_parameters_error
    [of "Some \<lparr>rect_x = Fin 1, rect_y = Fin 1, rect_width = Fin 1, rect_height = Fin 1\<rparr>"
        None "Some \<lparr>dims_width = Fin 4, dims_height = Fin 4\<rparr>"]
    missing_parameters_error
    [of "Some \<lparr>rect_x = Fin 1, rect_y = Fin 1, rect_width = Fin 1, rect_height = Fin 1\<rparr>"
        "Some \<lparr>dims_width = Fin 4, dims_height = Fin 4\<rparr>" None]
  by (simp add: missingParameters_def)

section \<open>The fit of an image in its box\<close>

lemma fit_wider:
  assumes "1 / 10 ^ 100 \<le> iw" "iw \<le> 10 ^ 100" "1 / 10 ^ 100 \<le> ih" "ih \<le> 10 ^ 100"
    and "1 / 10 ^ 100 \<le> bw" "bw \<le> 10 ^ 100" "1 / 10 ^ 100 \<le> bh" "bh \<le> 10 ^ 100"
    and "round53 (bw / bh) < round53 (iw / ih)"
  shows "fit_width (calculateFitDimensions (Fin iw) (Fin ih) (Fin bw) (Fin bh)) = Fin bw"
    and "fit_height (calculateFitDimensions (Fin iw) (Fin ih) (Fin bw) (Fin bh))
           = Fin (round53 (bw / round53 (iw / ih)))"
proof -
  define A where "A = round53 (iw / ih)"
  note i = ratio_in_range [OF assms(1-4)]
  note b = ratio_in_range [OF assms(5-8)]
  have A: "1 / 10 ^ 201 \<le> A" "A \<le> 10 ^ 201"
    using i by (simp_all add: A_def)
  have p: "(0::real) < 1 / 10 ^ 100" "(0::real) < 1 / 10 ^ 201" by simp_all
  have lo: "1 / 10 ^ 100 / 10 ^ 201 \<le> bw / A" and hi: "bw / A \<le> 10 ^ 100 / (1 / 10 ^ 201)"
    and pos: "0 < bw / A"
    using quotient_bounds [OF p(1) assms(5,6) p(2) A] by blast+
  have "A \<noteq> 0" using A p by linarith
  moreover have "1 / 2 ^ 1022 \<le> \<bar>bw / A\<bar>" "\<bar>bw / A\<bar> \<le> 2 ^ 1023"
    by (rule normal_by_bounds [OF lo hi], simp, simp)+
  ultimately have q: "Fin bw / Fin A = Fin (round53 (bw / A))"
    by (rule Fin_div_normal)
  show "fit_width (calculateFitDimensions (Fin iw) (Fin ih) (Fin bw) (Fin bh)) = Fin bw"
    using assms(9) by (simp add: calculateFitDimensions_def Let_def i(3) b(3)
        del: divide_jsnum.simps times_jsnum.simps)
  show "fit_height (calculateFitDimensions (Fin iw) (Fin ih) (Fin bw) (Fin bh))
           = Fin (round53 (bw / round53 (iw / ih)))"
    using assms(9) q by (simp add: calculateFitDimensions_def Let_def i(3) b(3) A_def
        del: divide_jsnum.simps times_jsnum.simps)
qed

lemma fit_taller:
  assumes "1 / 10 ^ 100 \<le> iw" "iw \<le> 10 ^ 100" "1 / 10 ^ 100 \<le> ih" "ih \<le> 10 ^ 100"
    and "1 / 10 ^ 100 \<le> bw" "bw \<le> 10 ^ 100" "1 / 10 ^ 100 \<le> bh" "bh \<le> 10 ^ 100"
    and "\<not> round53 (bw / bh) < round53 (iw / ih)"
  shows "fit_width (calculateFitDimensions (Fin iw) (Fin ih) (Fin bw) (Fin bh))
           = Fin (round53 (bh * round53 (iw / ih)))"
    and "fit_height (calculateFitDimensions (Fin iw) (Fin ih) (Fin bw) (Fin bh)) = Fin bh"
proof -
  define A where "A = round53 (iw / ih)"
  note i = ratio_in_range [OF assms(1-4)]
  note b = ratio_in_range [OF assms(5-8)]
  have A: "1 / 10 ^ 201 \<le> A" "A \<le> 10 ^ 201"
    using i by (simp_all add: A_def)
  have p: "(0::real) < 1 / 10 ^ 100" "(0::real) < 1 / 10 ^ 201" by simp_all
  have lo: "1 / 10 ^ 100 * (1 / 10 ^ 201) \<le> bh * A" and hi: "bh * A \<le> 10 ^ 100 * 10 ^ 201"
    and pos: "0 < bh * A"
    using product_bounds [OF p(1) assms(7,8) p(2) A] by blast+
  have "1 / 2 ^ 1022 \<le> \<bar>bh * A\<bar>" "\<bar>bh * A\<bar> \<le> 2 ^ 1023"
    by (rule normal_by_bounds [OF lo hi], simp, simp)+
  then have q: "Fin bh * Fin A = Fin (round53 (bh * A))"
    by (rule Fin_mul_normal)
  show "fit_width (calculateFitDimensions (Fin iw) (Fin ih) (Fin bw) (Fin bh))
           = Fin (round53 (bh * round53 (iw / ih)))"
    using assms(9) q by (simp add: calculateFitDimensions_def Let_def i(3) b(3) A_def
        del: divide_jsnum.simps times_jsnum.simps)
  show "fit_height (calculateFitDimensions (Fin iw) (Fin ih) (Fin bw) (Fin bh)) = Fin bh"
    using assms(9) by (simp add: calculateFitDimensions_def Let_def i(3) b(3)
        del: divide_jsnum.simps times_jsnum.simps)
qed

text \<open>The rounded fitted dimension against the box and against the aspect ratio.\<close>

lemma wider_height_bound:
  assumes "0 < iw" "0 < ih" "0 < bw" "0 < bh" "round53 (bw / bh) < round53 (iw / ih)"
  shows "round53 (bw / round53 (iw / ih)) \<le> bh * (1 + 1 / 2 ^ 51)"
proof -
  define a where "a = round53 (iw / ih)"
  define b where "b = round53 (bw / bh)"
  have ab: "0 < b" "b < a"
    using assms by (simp_all add: a_def b_def)
  have "bw / bh * (9007199254740991 / 9007199254740992) \<le> b"
    unfolding b_def using assms by (intro round53_ratio_bounds) simp
  then have k: "bw * 9007199254740991 \<le> b * bh * 9007199254740992"
    using assms by (simp add: field_simps)
  have "round53 (bw / a) \<le> bw / a * (9007199254740993 / 9007199254740992)"
    using assms ab by (intro round53_ratio_bounds) simp
  then have "round53 (bw / a) * a * 9007199254740992 \<le> bw * 9007199254740993"
    using ab by (simp add: field_simps)
  moreover have "round53 (bw / a) * b \<le> round53 (bw / a) * a"
    using ab assms by (intro mult_left_mono) simp_all
  ultimately have m: "round53 (bw / a) * b * 9007199254740992 \<le> bw * 9007199254740993"
    by linarith
  have "round53 (bw / a) * b * 9007199254740992 * 9007199254740991
          \<le> b * bh * 9007199254740992 * 9007199254740993"
    using m k by linarith
  then have "b * (round53 (bw / a) * 9007199254740991) \<le> b * (bh * 9007199254740993)"
    by (simp add: algebra_simps)
  then have "round53 (bw / a) * 9007199254740991 \<le> bh * 9007199254740993"
    using ab by simp
  then have "round53 (bw / a) \<le> bh * (9007199254740993 / 9007199254740991)"
    by (simp add: field_simps)
  also have "\<dots> \<le> bh * (1 + 1 / 2 ^ 51)"
    using assms by (intro mult_left_mono) simp_all
  finally show ?thesis by (simp add: a_def)
qed

lemma taller_width_bound:
  assumes "0 < iw" "0 < ih" "0 < bw" "0 < bh" "\<not> round53 (bw / bh) < round53 (iw / ih)"
  shows "round53 (bh * round53 (iw / ih)) \<le> bw * (1 + 1 / 2 ^ 51)"
proof -
  define a where "a = round53 (iw / ih)"
  define b where "b = round53 (bw / bh)"
  have ab: "0 < a" "a \<le> b"
    using assms by (simp_all add: a_def b_def)
  have "b \<le> bw / bh * (9007199254740993 / 9007199254740992)"
    unfolding b_def using assms by (intro round53_ratio_bounds) simp
  then have k: "bh * b * 9007199254740992 \<le> bw * 9007199254740993"
    using assms by (simp add: field_simps)
  have "round53 (bh * a) \<le> bh * a * (9007199254740993 / 9007199254740992)"
    using assms ab by (intro round53_ratio_bounds) simp
  moreover have "bh * a \<le> bh * b"
    using ab assms by (intro mult_left_mono) simp_all
  ultimately have "round53 (bh * a) * 9007199254740992 \<le> bh * b * 9007199254740993"
    by simp
  then have "round53 (bh * a) * 9007199254740992 * 9007199254740992
          \<le> bw * 9007199254740993 * 9007199254740993"
    using k by linarith
  then have "round53 (bh * a) \<le> bw * (9007199254740993 * 9007199254740993
                                  / (9007199254740992 * 9007199254740992))"
    by (simp add: field_simps)
  also have "\<dots> \<le> bw * (1 + 1 / 2 ^ 51)"
    using assms by (intro mult_left_mono) simp_all
  finally show ?thesis by (simp add: a_def)
qed

lemma wider_aspect:
  assumes "0 < iw" "0 < ih" "0 < bw"
  shows "\<bar>bw / round53 (bw / round53 (iw / ih)) - iw / ih\<bar> < iw / ih / 10 ^ 9"
proof -
  define r where "r = iw / ih"
  define a where "a = round53 r"
  define g where "g = round53 (bw / a)"
  define q where "q = bw / g"
  have r: "0 < r" using assms by (simp add: r_def)
  have a: "0 < a" using r by (simp add: a_def)
  have g: "0 < g" using a assms by (simp add: g_def)
  have qg: "q * g = bw" using g by (simp add: q_def)
  have a1: "r * (9007199254740991 / 9007199254740992) \<le> a"
    and a2: "a \<le> r * (9007199254740993 / 9007199254740992)"
    unfolding a_def using r by (intro round53_ratio_bounds; simp)+
  have "bw / a * (9007199254740991 / 9007199254740992) \<le> g"
    and "g \<le> bw / a * (9007199254740993 / 9007199254740992)"
    unfolding g_def using a assms by (intro round53_ratio_bounds; simp)+
  then have g1: "bw * 9007199254740991 \<le> g * a * 9007199254740992"
    and g2: "g * a * 9007199254740992 \<le> bw * 9007199254740993"
    using a by (simp_all add: field_simps)
  have "g * (q * 9007199254740991) \<le> g * (a * 9007199254740992)"
    using g1 qg by (simp add: algebra_simps)
  then have u1: "q * 9007199254740991 \<le> a * 9007199254740992"
    using g by simp
  have "g * (a * 9007199254740992) \<le> g * (q * 9007199254740993)"
    using g2 qg by (simp add: algebra_simps)
  then have u2: "a * 9007199254740992 \<le> q * 9007199254740993"
    using g by simp
  have "q * 9007199254740991 \<le> r * 9007199254740993"
    using u1 a2 by linarith
  moreover have "r * 9007199254740991 \<le> q * 9007199254740993"
    using u2 a1 by linarith
  ultimately have "\<bar>q - r\<bar> < r / 1000000000"
    using r by linarith
  then show ?thesis
    by (simp add: q_def g_def a_def r_def)
qed

lemma taller_aspect:
  assumes "0 < iw" "0 < ih" "0 < bh"
  shows "\<bar>round53 (bh * round53 (iw / ih)) / bh - iw / ih\<bar> < iw / ih / 10 ^ 9"
proof -
  define r where "r = iw / ih"
  define a where "a = round53 r"
  define q where "q = round53 (bh * a) / bh"
  have r: "0 < r" using assms by (simp add: r_def)
  have a: "0 < a" using r by (simp add: a_def)
  have a1: "r * (9007199254740991 / 9007199254740992) \<le> a"
    and a2: "a \<le> r * (9007199254740993 / 9007199254740992)"
    unfolding a_def using r by (intro round53_ratio_bounds; simp)+
  have "bh * a * (9007199254740991 / 9007199254740992) \<le> round53 (bh * a)"
    and "round53 (bh * a) \<le> bh * a * (9007199254740993 / 9007199254740992)"
    using a assms by (intro round53_ratio_bounds; simp)+
  then have u1: "a * 9007199254740991 \<le> q * 9007199254740992"
    and u2: "q * 9007199254740992 \<le> a * 9007199254740993"
    using assms by (simp_all add: q_def field_simps)
  have "\<bar>q - r\<bar> < r / 1000000000"
    using u1 u2 a1 a2 r by linarith
  then show ?thesis
    by (simp add: q_def a_def r_def)
qed

text \<open>
  C6, as the specification states it, fails: for an image of 29 by 7 pixels and a box of
  29 by 7 points the fitted height is the box height, and the fitted width, the rounded
  product of 7 and the rounded quotient 29 / 7, is \<open>29 + 2^-48\<close>, above the box width.
\<close>

theorem fitted_width_can_exceed_box:
  "calculateFitDimensions (Fin 29) (Fin 7) (Fin 29) (Fin 7)
     = \<lparr>fit_width = Fin (29 + 1 / 2 ^ 48), fit_height = Fin 7,
        fit_offsetX = Fin (- (1 / 2 ^ 49)), fit_offsetY = Fin 0\<rparr>
   \<and> \<not> Fin (29 + 1 / 2 ^ 48) \<le> Fin 29"
  by (simp add: calculateFitDimensions_def minus_jsnum_def toDouble_eval)

text \<open>
  C6, amended. For image and box dimensions between \<open>10^-100\<close> and \<open>10^100\<close> the fitted
  dimensions are finite and positive, the fitted width is the box width or the fitted
  height is the box height, the other fitted dimension exceeds that of the box by at most
  one part in \<open>2^51\<close>, and the ratio of the fitted dimensions differs from the ratio of the
  image by less than \<open>1e-9\<close> of the latter.
\<close>

theorem fit_within_box_up_to_rounding:
  assumes "1 / 10 ^ 100 \<le> iw" and "iw \<le> 10 ^ 100"
    and "1 / 10 ^ 100 \<le> ih" and "ih \<le> 10 ^ 100"
    and "1 / 10 ^ 100 \<le> bw" and "bw \<le> 10 ^ 100"
    and "1 / 10 ^ 100 \<le> bh" and "bh \<le> 10 ^ 100"
  shows "\<exists>fw fh.
           fit_width (calculateFitDimensions (Fin iw) (Fin ih) (Fin bw) (Fin bh)) = Fin fw \<and>
           fit_height (calculateFitDimensions (Fin iw) (Fin ih) (Fin bw) (Fin bh)) = Fin fh \<and>
           0 < fw \<and> 0 < fh \<and>
           fw \<le> bw * (1 + 1 / 2 ^ 51) \<and> fh \<le> bh * (1 + 1 / 2 ^ 51) \<and>
           \<bar>fw / fh - iw / ih\<bar> < iw / ih / 10 ^ 9 \<and>
           (fw = bw \<or> fh = bh)"
proof -
  have p: "(0::real) < 1 / 10 ^ 100" by simp
  have pos: "0 < iw" "0 < ih" "0 < bw" "0 < bh"
    using assms p by linarith+
  show ?thesis
  proof (cases "round53 (bw / bh) < round53 (iw / ih)")
    case True
    have "0 < round53 (bw / round53 (iw / ih))"
      using pos by simp
    moreover have "bw \<le> bw * (1 + 1 / 2 ^ 51)"
      using pos by simp
    ultimately show ?thesis
      using pos True wider_height_bound [of iw ih bw bh] wider_aspect [of iw ih bw]
      by (simp add: fit_wider [OF assms True])
  next
    case False
    have "0 < round53 (bh * round53 (iw / ih))"
      using pos by simp
    moreover have "bh \<le> bh * (1 + 1 / 2 ^ 51)"
      using pos by simp
    ultimately show ?thesis
      using pos False taller_width_bound [of iw ih bw bh] taller_aspect [of iw ih bh]
      by (simp add: fit_taller [OF assms False])
  qed
qed

theorem fit_within_box_up_to_rounding_witness:
  "calculateFitDimensions (Fin 256) (Fin 128) (Fin 100) (Fin 100)
     = \<lparr>fit_width = Fin 100, fit_height = Fin 50, fit_offsetX = Fin 0, fit_offsetY = Fin 25\<rparr>
   \<and> (\<exists>fw fh.
         fit_width (calculateFitDimensions (Fin 256) (Fin 128) (Fin 100) (Fin 100)) = Fin fw \<and>
         fit_height (calculateFitDimensions (Fin 256) (Fin 128) (Fin 100) (Fin 100)) = Fin fh \<and>
         0 < fw \<and> 0 < fh \<and>
         fw \<le> 100 * (1 + 1 / 2 ^ 51) \<and> fh \<le> 100 * (1 + 1 / 2 ^ 51) \<and>
         \<bar>fw / fh - 256 / 128\<bar> < 256 / 128 / 10 ^ 9 \<and>
         (fw = 100 \<or> fh = 100))"
proof
  show "calculateFitDimensions (Fin 256) (Fin 128) (Fin 100) (Fin 100)
     = \<lparr>fit_width = Fin 100, fit_height = Fin 50, fit_offsetX = Fin 0, fit_offsetY = Fin 25\<rparr>"
    by (simp add: calculateFitDimensions_def minus_jsnum_def toDouble_eval)
  have "1 / 10 ^ 100 \<le> (256::real)" "(256::real) \<le> 10 ^ 100"
    "1 / 10 ^ 100 \<le> (128::real)" "(128::real) \<le> 10 ^ 100"
    "1 / 10 ^ 100 \<le> (100::real)" "(100::real) \<le> 10 ^ 100"
    "1 / 10 ^ 100 \<le> (100::real)" "(100::real) \<le> 10 ^ 100"
    by simp_all
  from fit_within_box_up_to_rounding [OF this]
  show "\<exists>fw fh.
         fit_width (calculateFitDimensions (Fin 256) (Fin 128) (Fin 100) (Fin 100)) = Fin fw \<and>
         fit_height (calculateFitDimensions (Fin 256) (Fin 128) (Fin 100) (Fin 100)) = Fin fh \<and>
         0 < fw \<and> 0 < fh \<and>
         fw \<le> 100 * (1 + 1 / 2 ^ 51) \<and> fh \<le> 100 * (1 + 1 / 2 ^ 51) \<and>
         \<bar>fw / fh - 256 / 128\<bar> < 256 / 128 / 10 ^ 9 \<and>
         (fw = 100 \<or> fh = 100)" .
qed

section \<open>The decoding of the image\<close>

lemma embedImage_error:
  "snd (embedImage rt sd b) = Inl e \<Longrightarrow> \<exists>m. e = embedFailed m"
  by (auto simp add: embedImage_def split: if_splits sum.splits)

text \<open>
  C3, as the specification states it, fails: for a JPEG payload declared as \<open>png\<close> the
  PNG decoder is the only one called, and the operation fails although the JPEG decoder
  accepts the payload.
\<close>

theorem declared_png_never_falls_back:
  "embedImage sampleRuntime
     (samplePlacement\<lparr>sig_image := ''/9j/'', sig_imageType := Some ''png''\<rparr>) [0xFF, 0xD8]
   = ([PngDecoder],
      Inl (Error [Str ''Failed to embed signature image: '', Str ''not a PNG'']))
   \<and> embedJpeg sampleRuntime [0xFF, 0xD8]
   = Inr \<lparr>image_decoder = JpegDecoder, image_bytes = [0xFF, 0xD8],
          image_width = Fin 2, image_height = Fin 1\<rparr>
   \<and> signPDF sampleRuntime ''2024-01-01T00:00:00.000Z'' [0]
       (samplePlacement\<lparr>sig_image := ''/9j/'', sig_imageType := Some ''png''\<rparr>)
   = Inl (Error [Str ''Failed to embed signature image: '', Str ''not a PNG''])"
  by (simp add: embedImage_def sampleRuntime_def samplePlacement_def embedFailed_def
      signPDF_def Let_def getPage_def base64ToBuffer_def dataUriPayload_def)

text \<open>
  C3, amended. With \<open>png\<close> declared (the image type is \<open>png\<close>, or the image string
  contains \<open>png\<close>) the PNG decoder is the only one called; with \<open>jpeg\<close> declared and
  \<open>png\<close> not, the JPEG decoder is the only one called; a failure of that one call is the
  failure of the operation, with the message of the decoder after \<open>Failed to embed
  signature image\<close>. Only when neither is declared is the PNG decoder called first and,
  when it fails, the JPEG decoder once; the operation then fails when both do. So both
  decoders are called exactly when no encoding is declared and the PNG decoder fails,
  and no decoder is called twice.
\<close>

theorem declared_encoding_has_no_fallback:
  "(declaredPng sd \<longrightarrow>
      fst (embedImage rt sd buf) = [PngDecoder] \<and>
      snd (embedImage rt sd buf) = map_sum embedFailed id (embedPng rt buf)) \<and>
   (\<not> declaredPng sd \<and> declaredJpeg sd \<longrightarrow>
      fst (embedImage rt sd buf) = [JpegDecoder] \<and>
      snd (embedImage rt sd buf) = map_sum embedFailed id (embedJpeg rt buf)) \<and>
   (\<not> declaredPng sd \<and> \<not> declaredJpeg sd \<longrightarrow>
      (case embedPng rt buf of
         Inr i \<Rightarrow> embedImage rt sd buf = ([PngDecoder], Inr i)
       | Inl _ \<Rightarrow>
          fst (embedImage rt sd buf) = [PngDecoder, JpegDecoder] \<and>
          snd (embedImage rt sd buf) = map_sum embedFailed id (embedJpeg rt buf))) \<and>
   ((PngDecoder \<in> set (fst (embedImage rt sd buf)) \<and>
     JpegDecoder \<in> set (fst (embedImage rt sd buf))) =
      (\<not> declaredPng sd \<and> \<not> declaredJpeg sd \<and> (\<exists>m. embedPng rt buf = Inl m))) \<and>
   distinct (fst (embedImage rt sd buf))"
proof -
  consider (png) "declaredPng sd"
    | (jpeg) "\<not> declaredPng sd" "declaredJpeg sd"
    | (none) "\<not> declaredPng sd" "\<not> declaredJpeg sd"
    by blast
  then show ?thesis
  proof cases
    case png
    then have "embedImage rt sd buf = ([PngDecoder], map_sum embedFailed id (embedPng rt buf))"
      by (simp add: embedImage_def declaredPng_def split: sum.splits)
    then show ?thesis using png by simp
  next
    case jpeg
    then have "embedImage rt sd buf = ([JpegDecoder], map_sum embedFailed id (embedJpeg rt buf))"
      by (simp add: embedImage_def declaredPng_def declaredJpeg_def split: sum.splits)
    then show ?thesis using jpeg by simp
  next
    case none
    show ?thesis
    proof (cases "embedPng rt buf")
      case (Inl m)
      then have "embedImage rt sd buf
          = ([PngDecoder, JpegDecoder], map_sum embedFailed id (embedJpeg rt buf))"
        using none
        by (simp add: embedImage_def declaredPng_def declaredJpeg_def split: sum.splits)
      then show ?thesis using none Inl by simp
    next
      case (Inr i)
      then have "embedImage rt sd buf = ([PngDecoder], Inr i)"
        using none by (simp add: embedImage_def declaredPng_def declaredJpeg_def)
      then show ?thesis using none Inr by simp
    qed
  qed
qed

theorem declared_encoding_has_no_fallback_witness:
  "embedImage sampleRuntime
     (samplePlacement\<lparr>sig_image := ''/9j/'', sig_imageType := Some ''png''\<rparr>) [0]
   = ([PngDecoder], Inl (embedFailed ''not a PNG''))
   \<and> embedImage sampleRuntime
     (samplePlacement\<lparr>sig_image := ''iVBOR'', sig_imageType := Some ''jpeg''\<rparr>) [0]
   = ([JpegDecoder], Inl (embedFailed ''not a JPEG''))
   \<and> embedImage sampleRuntime
     (samplePlacement\<lparr>sig_image := ''/9j/'', sig_imageType := None\<rparr>) [0xFF, 0xD8]
   = ([PngDecoder, JpegDecoder],
      Inr \<lparr>image_decoder = JpegDecoder, image_bytes = [0xFF, 0xD8],
           image_width = Fin 2, image_height = Fin 1\<rparr>)
   \<and> embedImage sampleRuntime
     (samplePlacement\<lparr>sig_image := ''/9j/'', sig_imageType := None\<rparr>) [0]
   = ([PngDecoder, JpegDecoder], Inl (embedFailed ''not a JPEG''))"
proof -
  let ?a = "samplePlacement\<lparr>sig_image := ''/9j/'', sig_imageType := Some ''png''\<rparr>"
  let ?b = "samplePlacement\<lparr>sig_image := ''iVBOR'', sig_imageType := Some ''jpeg''\<rparr>"
  let ?c = "samplePlacement\<lparr>sig_image := ''/9j/'', sig_imageType := None\<rparr>"
  have a: "declaredPng ?a"
    and b: "\<not> declaredPng ?b" "declaredJpeg ?b"
    and c: "\<not> declaredPng ?c" "\<not> declaredJpeg ?c"
    by (simp_all add: declaredPng_def declaredJpeg_def samplePlacement_def)
  have r: "embedPng sampleRuntime [0] = Inl ''not a PNG''"
    "embedJpeg sampleRuntime [0] = Inl ''not a JPEG''"
    "embedPng sampleRuntime [0xFF, 0xD8] = Inl ''not a PNG''"
    "embedJpeg sampleRuntime [0xFF, 0xD8] =
       Inr \<lparr>image_decoder = JpegDecoder, image_bytes = [0xFF, 0xD8],
            image_width = Fin 2, image_height = Fin 1\<rparr>"
    by (simp_all add: sampleRuntime_def)
  show ?thesis
    using declared_encoding_has_no_fallback [of ?a sampleRuntime "[0]"]
      declared_encoding_has_no_fallback [of ?b sampleRuntime "[0]"]
      declared_encoding_has_no_fallback [of ?c sampleRuntime "[0xFF, 0xD8]"]
      declared_encoding_has_no_fallback [of ?c sampleRuntime "[0]"]
      a b c
    by (simp add: r prod_eq_iff)
qed

section \<open>signPDF\<close>

lemma orZero_falsy: "falsyPageIndex p \<Longrightarrow> orZero p = Fin 0"
  by (auto simp add: falsyPageIndex_def)

lemma getPage_zero: "doc_pages doc \<noteq> [] \<Longrightarrow> getPage doc (Fin 0) = Inr 0"
  by (simp add: getPage_def)

lemma getPage_error: "getPage doc i = Inl e \<Longrightarrow> \<exists>m. e = LibraryError m"
  by (auto simp add: getPage_def split: jsnum.splits if_splits)

lemma drawAndSave_error:
  "drawAndSave rt now hash doc idx k img sd = Inl e \<Longrightarrow> \<exists>m. e = LibraryError m"
  by (auto simp add: drawAndSave_def Let_def split: sum.splits if_splits)

lemma drawAndSave_draw_failed:
  "page_drawImage rt (doc_pages doc ! k) img (imageOptions img sd) = Inl m \<Longrightarrow>
     drawAndSave rt now hash doc idx k img sd = Inl (LibraryError m)"
  by (simp add: drawAndSave_def imageOptions_def Let_def)

lemma drawAndSave_success:
  assumes "page_drawImage rt (doc_pages doc ! k) img (imageOptions img sd) = Inr drawn"
    and "(if env_DEBUG_SIGNATURE_BOX rt = Some ''true''
          then page_drawRectangle rt drawn (signatureBox sd) else Inr drawn) = Inr final"
  shows "\<exists>r. drawAndSave rt now hash doc idx k img sd = Inr r \<and>
           log_pageIndex (result_auditLog r) = idx \<and>
           log_pageSize (result_auditLog r) = page_size (doc_pages doc ! k) \<and>
           result_signedPDFBuffer r =
             PDFDocument_save rt now (doc\<lparr>doc_pages := (doc_pages doc)[k := final]\<rparr>)"
proof -
  have "page_drawImage rt (doc_pages doc ! k) img
          \<lparr>rect_x = sig_x sd + fit_offsetX (calculateFitDimensions (image_width img)
                       (image_height img) (sig_width sd) (sig_height sd)),
           rect_y = sig_y sd + fit_offsetY (calculateFitDimensions (image_width img)
                       (image_height img) (sig_width sd) (sig_height sd)),
           rect_width = fit_width (calculateFitDimensions (image_width img)
                       (image_height img) (sig_width sd) (sig_height sd)),
           rect_height = fit_height (calculateFitDimensions (image_width img)
                       (image_height img) (sig_width sd) (sig_height sd))\<rparr> = Inr drawn"
    using assms(1) by (simp add: imageOptions_def Let_def)
  then show ?thesis
    using assms(2) by (cases "page_size (doc_pages doc ! k)") (simp add: drawAndSave_def Let_def)
qed

lemma signPDF_load_failed:
  "PDFDocument_load rt now buf = Inl m \<Longrightarrow> signPDF rt now buf sd = Inl (LibraryError m)"
  by (simp add: signPDF_def)

lemma signPDF_out_of_range:
  assumes "PDFDocument_load rt now buf = Inr doc"
    and "orZero (sig_pageIndex sd) < Fin 0
         \<or> orZero (sig_pageIndex sd) \<ge> Fin (real (length (doc_pages doc)))"
  shows "signPDF rt now buf sd
           = Inl (invalidPageIndex (orZero (sig_pageIndex sd)) (length (doc_pages doc)))"
  using assms by (simp add: signPDF_def Let_def)

lemma signPDF_in_range:
  assumes "PDFDocument_load rt now buf = Inr doc"
    and "\<not> (orZero (sig_pageIndex sd) < Fin 0
            \<or> orZero (sig_pageIndex sd) \<ge> Fin (real (length (doc_pages doc))))"
  shows "signPDF rt now buf sd =
          (case getPage doc (orZero (sig_pageIndex sd)) of
             Inl e \<Rightarrow> Inl e
           | Inr k \<Rightarrow>
              (case snd (embedImage rt sd (base64ToBuffer rt (sig_image sd))) of
                 Inl e \<Rightarrow> Inl e
               | Inr img \<Rightarrow>
                  drawAndSave rt now (computeSHA256 rt buf) doc
                    (orZero (sig_pageIndex sd)) k img sd))"
  using assms by (simp add: signPDF_def Let_def split: sum.splits)

lemma signPDF_in_range_error:
  assumes "PDFDocument_load rt now buf = Inr doc"
    and "\<not> (orZero (sig_pageIndex sd) < Fin 0
            \<or> orZero (sig_pageIndex sd) \<ge> Fin (real (length (doc_pages doc))))"
    and "signPDF rt now buf sd = Inl e"
  shows "(\<exists>m. e = LibraryError m) \<or> (\<exists>m. e = embedFailed m)"
proof (cases "getPage doc (orZero (sig_pageIndex sd))")
  case (Inl e')
  then have "e = e'"
    using assms by (simp add: signPDF_in_range)
  then show ?thesis
    using Inl getPage_error by blast
next
  case (Inr k)
  show ?thesis
  proof (cases "snd (embedImage rt sd (base64ToBuffer rt (sig_image sd)))")
    case (Inl e')
    then have "e = e'"
      using assms Inr by (simp add: signPDF_in_range)
    then show ?thesis
      using Inl embedImage_error by blast
  next
    case (Inr img)
    then have "drawAndSave rt now (computeSHA256 rt buf) doc (orZero (sig_pageIndex sd))
                 k img sd = Inl e"
      using assms \<open>getPage doc (orZero (sig_pageIndex sd)) = Inr k\<close>
      by (simp add: signPDF_in_range)
    then show ?thesis
      using drawAndSave_error by blast
  qed
qed

lemma signPDF_invalid_index_iff:
  "(signPDF rt now buf sd = Inl (Error (Str ''Invalid page index: '' # ms))) =
   (\<exists>doc. PDFDocument_load rt now buf = Inr doc \<and>
      (orZero (sig_pageIndex sd) < Fin 0
       \<or> orZero (sig_pageIndex sd) \<ge> Fin (real (length (doc_pages doc)))) \<and>
      ms = [Num (orZero (sig_pageIndex sd)), Str ''. Document has '',
            Num (Fin (real (length (doc_pages doc)))), Str '' pages.''])"
proof (cases "PDFDocument_load rt now buf")
  case (Inl m)
  then show ?thesis by (simp add: signPDF_load_failed)
next
  case (Inr doc)
  show ?thesis
  proof (cases "orZero (sig_pageIndex sd) < Fin 0
                \<or> orZero (sig_pageIndex sd) \<ge> Fin (real (length (doc_pages doc)))")
    case True
    then show ?thesis
      using Inr by (auto simp add: signPDF_out_of_range invalidPageIndex_def)
  next
    case False
    have "signPDF rt now buf sd \<noteq> Inl (Error (Str ''Invalid page index: '' # ms))"
    proof
      assume "signPDF rt now buf sd = Inl (Error (Str ''Invalid page index: '' # ms))"
      from signPDF_in_range_error [OF Inr False this] show False
        by (auto simp add: embedFailed_def)
    qed
    then show ?thesis
      using Inr False by auto
  qed
qed

lemma signPDF_falsy_first_page:
  assumes "falsyPageIndex (sig_pageIndex sd)"
    and "PDFDocument_load rt now buf = Inr doc" and "doc_pages doc \<noteq> []"
    and "snd (embedImage rt sd (base64ToBuffer rt (sig_image sd))) = Inr img"
  shows "signPDF rt now buf sd =
           drawAndSave rt now (computeSHA256 rt buf) doc (Fin 0) 0 img sd"
  using assms by (simp add: signPDF_def Let_def orZero_falsy getPage_zero)

text \<open>
  C10. An absent page index, the two zeros and \<open>NaN\<close> resolve to page index 0. With such
  an index, a document that parses and has a page, and an image that decodes, \<open>signPDF\<close>
  draws on the first page: it passes the first page, the image and the options computed
  from the placement (the fitted size, centred in the box) to \<open>page.drawImage\<close>. When the
  library rejects the options, its exception is the outcome. When it accepts them (and
  the rectangle of the debugging aid, if that is switched on), \<open>signPDF\<close> succeeds: the
  document it serialises is the parsed one with its first page replaced by the page drawn
  on, the other pages as they were, and the audit log records page index 0 and the size
  of the first page. The error \<open>Invalid page index\<close> is raised exactly when the document
  parses and the resolved index is below 0 or at least the page count, and its message
  holds the resolved index and the page count.
\<close>

theorem falsy_page_index_selects_first_page:
  "(falsyPageIndex (sig_pageIndex sd) \<longrightarrow> orZero (sig_pageIndex sd) = Fin 0) \<and>
   (falsyPageIndex (sig_pageIndex sd) \<and> PDFDocument_load rt now buf = Inr doc \<and>
    doc_pages doc \<noteq> [] \<and>
    snd (embedImage rt sd (base64ToBuffer rt (sig_image sd))) = Inr img \<and>
    page_drawImage rt (doc_pages doc ! 0) img (imageOptions img sd) = Inl m \<longrightarrow>
      signPDF rt now buf sd = Inl (LibraryError m)) \<and>
   (falsyPageIndex (sig_pageIndex sd) \<and> PDFDocument_load rt now buf = Inr doc \<and>
    doc_pages doc \<noteq> [] \<and>
    snd (embedImage rt sd (base64ToBuffer rt (sig_image sd))) = Inr img \<and>
    page_drawImage rt (doc_pages doc ! 0) img (imageOptions img sd) = Inr drawn \<and>
    (if env_DEBUG_SIGNATURE_BOX rt = Some ''true''
     then page_drawRectangle rt drawn (signatureBox sd) else Inr drawn) = Inr final \<longrightarrow>
      (\<exists>r. signPDF rt now buf sd = Inr r \<and>
           log_pageIndex (result_auditLog r) = Fin 0 \<and>
           log_pageSize (result_auditLog r) = page_size (doc_pages doc ! 0) \<and>
           result_signedPDFBuffer r =
             PDFDocument_save rt now (doc\<lparr>doc_pages := (doc_pages doc)[0 := final]\<rparr>))) \<and>
   ((signPDF rt now buf sd = Inl (Error (Str ''Invalid page index: '' # ms))) =
      (\<exists>d. PDFDocument_load rt now buf = Inr d \<and>
         (orZero (sig_pageIndex sd) < Fin 0
          \<or> orZero (sig_pageIndex sd) \<ge> Fin (real (length (doc_pages d)))) \<and>
         ms = [Num (orZero (sig_pageIndex sd)), Str ''. Document has '',
               Num (Fin (real (length (doc_pages d)))), Str '' pages.'']))"
proof (intro conjI impI)
  assume "falsyPageIndex (sig_pageIndex sd)"
  then show "orZero (sig_pageIndex sd) = Fin 0"
    by (rule orZero_falsy)
next
  assume a: "falsyPageIndex (sig_pageIndex sd) \<and> PDFDocument_load rt now buf = Inr doc \<and>
    doc_pages doc \<noteq> [] \<and>
    snd (embedImage rt sd (base64ToBuffer rt (sig_image sd))) = Inr img \<and>
    page_drawImage rt (doc_pages doc ! 0) img (imageOptions img sd) = Inl m"
  then have "signPDF rt now buf sd =
      drawAndSave rt now (computeSHA256 rt buf) doc (Fin 0) 0 img sd"
    by (simp add: signPDF_falsy_first_page)
  then show "signPDF rt now buf sd = Inl (LibraryError m)"
    using a by (simp add: drawAndSave_draw_failed)
next
  assume a: "falsyPageIndex (sig_pageIndex sd) \<and> PDFDocument_load rt now buf = Inr doc \<and>
    doc_pages doc \<noteq> [] \<and>
    snd (embedImage rt sd (base64ToBuffer rt (sig_image sd))) = Inr img \<and>
    page_drawImage rt (doc_pages doc ! 0) img (imageOptions img sd) = Inr drawn \<and>
    (if env_DEBUG_SIGNATURE_BOX rt = Some ''true''
     then page_drawRectangle rt drawn (signatureBox sd) else Inr drawn) = Inr final"
  then have s: "signPDF rt now buf sd =
      drawAndSave rt now (computeSHA256 rt buf) doc (Fin 0) 0 img sd"
    by (simp add: signPDF_falsy_first_page)
  from a have d: "page_drawImage rt (doc_pages doc ! 0) img (imageOptions img sd) = Inr drawn"
    and f: "(if env_DEBUG_SIGNATURE_BOX rt = Some ''true''
          then page_drawRectangle rt drawn (signatureBox sd) else Inr drawn) = Inr final"
    by simp_all
  show "\<exists>r. signPDF rt now buf sd = Inr r \<and>
           log_pageIndex (result_auditLog r) = Fin 0 \<and>
           log_pageSize (result_auditLog r) = page_size (doc_pages doc ! 0) \<and>
           result_signedPDFBuffer r =
             PDFDocument_save rt now (doc\<lparr>doc_pages := (doc_pages doc)[0 := final]\<rparr>)"
    unfolding s by (rule drawAndSave_success [OF d f])
next
  show "(signPDF rt now buf sd = Inl (Error (Str ''Invalid page index: '' # ms))) =
      (\<exists>d. PDFDocument_load rt now buf = Inr d \<and>
         (orZero (sig_pageIndex sd) < Fin 0
          \<or> orZero (sig_pageIndex sd) \<ge> Fin (real (length (doc_pages d)))) \<and>
         ms = [Num (orZero (sig_pageIndex sd)), Str ''. Document has '',
               Num (Fin (real (length (doc_pages d)))), Str '' pages.''])"
    by (rule signPDF_invalid_index_iff)
qed

theorem falsy_page_index_selects_first_page_witness:
  "orZero (Some NaN) = Fin 0
   \<and> signPDF sampleRuntime ''2024-01-01T00:00:00.000Z'' [0, 0]
        (samplePlacement\<lparr>sig_x := NaN, sig_pageIndex := Some NaN\<rparr>)
      = Inl (LibraryError ''options must be of type number'')
   \<and> (\<exists>r. signPDF sampleRuntime ''2024-01-01T00:00:00.000Z'' [0, 0]
             (samplePlacement\<lparr>sig_pageIndex := Some NaN\<rparr>) = Inr r \<and>
           log_pageIndex (result_auditLog r) = Fin 0 \<and>
           log_pageSize (result_auditLog r) = \<lparr>dims_width = Fin 4, dims_height = Fin 4\<rparr> \<and>
           result_signedPDFBuffer r =
             PDFDocument_save sampleRuntime ''2024-01-01T00:00:00.000Z''
               \<lparr>doc_pages =
                  [samplePage\<lparr>page_content :=
                     [DrawImage
                        \<lparr>image_decoder = PngDecoder, image_bytes = [0x89, 0x50],
                         image_width = Fin 2, image_height = Fin 1\<rparr>
                        (Fin 1) (Fin (3 / 2)) (Fin 2) (Fin 1)]\<rparr>,
                   samplePage],
                doc_modificationDate = []\<rparr>)
   \<and> signPDF sampleRuntime ''2024-01-01T00:00:00.000Z'' [0, 0]
        (samplePlacement\<lparr>sig_pageIndex := Some (Fin 2)\<rparr>)
      = Inl (Error [Str ''Invalid page index: '', Num (Fin 2), Str ''. Document has '',
                    Num (Fin 2), Str '' pages.''])"
proof -
  let ?now = "''2024-01-01T00:00:00.000Z''"
  let ?sd = "samplePlacement\<lparr>sig_pageIndex := Some NaN\<rparr>"
  let ?sd1 = "samplePlacement\<lparr>sig_x := NaN, sig_pageIndex := Some NaN\<rparr>"
  let ?sd2 = "samplePlacement\<lparr>sig_pageIndex := Some (Fin 2)\<rparr>"
  let ?img = "\<lparr>image_decoder = PngDecoder, image_bytes = [0x89, 0x50],
               image_width = Fin 2, image_height = Fin 1\<rparr>"
  let ?doc = "\<lparr>doc_pages = [samplePage, samplePage], doc_modificationDate = []\<rparr>"
  let ?drawn = "samplePage\<lparr>page_content :=
                  [DrawImage ?img (Fin 1) (Fin (3 / 2)) (Fin 2) (Fin 1)]\<rparr>"
  let ?ms = "[Num (Fin 2), Str ''. Document has '', Num (Fin 2), Str '' pages.'']"
  have f: "falsyPageIndex (sig_pageIndex ?sd)" "falsyPageIndex (sig_pageIndex ?sd1)"
    by (simp_all add: falsyPageIndex_def)
  have l: "PDFDocument_load sampleRuntime ?now [0, 0] = Inr ?doc"
    by (simp add: sampleRuntime_def)
  have e: "snd (embedImage sampleRuntime ?sd (base64ToBuffer sampleRuntime (sig_image ?sd)))
             = Inr ?img"
    "snd (embedImage sampleRuntime ?sd1 (base64ToBuffer sampleRuntime (sig_image ?sd1)))
             = Inr ?img"
    by (simp_all add: embedImage_def sampleRuntime_def samplePlacement_def base64ToBuffer_def
        dataUriPayload_def)
  have o: "imageOptions ?img ?sd
      = \<lparr>rect_x = Fin 1, rect_y = Fin (3 / 2), rect_width = Fin 2, rect_height = Fin 1\<rparr>"
    by (simp add: imageOptions_def calculateFitDimensions_def samplePlacement_def
        minus_jsnum_def toDouble_eval)
  have o1: "rect_x (imageOptions ?img ?sd1) = NaN"
    by (simp add: imageOptions_def Let_def samplePlacement_def)
  have d: "page_drawImage sampleRuntime (doc_pages ?doc ! 0) ?img (imageOptions ?img ?sd)
      = Inr ?drawn"
    by (simp add: o sampleRuntime_def sampleDraw_def noNaN_def samplePage_def)
  have d1: "page_drawImage sampleRuntime (doc_pages ?doc ! 0) ?img (imageOptions ?img ?sd1)
      = Inl ''options must be of type number''"
    by (simp add: o1 sampleRuntime_def sampleDraw_def noNaN_def)
  have g: "(if env_DEBUG_SIGNATURE_BOX sampleRuntime = Some ''true''
            then page_drawRectangle sampleRuntime ?drawn (signatureBox ?sd)
            else Inr ?drawn) = Inr ?drawn"
    by (simp add: sampleRuntime_def)
  have z: "orZero (sig_pageIndex ?sd2) = Fin 2"
    by simp
  have s: "page_size (doc_pages ?doc ! 0) = \<lparr>dims_width = Fin 4, dims_height = Fin 4\<rparr>"
    by (simp add: samplePage_def)
  show ?thesis
    using falsy_page_index_selects_first_page
        [where sd = ?sd and rt = sampleRuntime and buf = "[0, 0]" and doc = ?doc
           and img = ?img and now = ?now and ms = ?ms and drawn = ?drawn
           and final = ?drawn and m = "''x''"]
      falsy_page_index_selects_first_page
        [where sd = ?sd1 and rt = sampleRuntime and buf = "[0, 0]" and doc = ?doc
           and img = ?img and now = ?now and ms = ?ms and drawn = ?drawn
           and final = ?drawn and m = "''options must be of type number''"]
      falsy_page_index_selects_first_page
        [where sd = ?sd2 and rt = sampleRuntime and buf = "[0, 0]" and doc = ?doc
           and img = ?img and now = ?now and ms = ?ms and drawn = ?drawn
           and final = ?drawn and m = "''x''"]
      f l e d d1 g z s
    by simp
qed

section \<open>The stand-in runtime at the sample placement\<close>

lemma sample_fit:
  "calculateFitDimensions (Fin 2) (Fin 1) (Fin 2) (Fin 2)
     = \<lparr>fit_width = Fin 2, fit_height = Fin 1, fit_offsetX = Fin 0, fit_offsetY = Fin (1 / 2)\<rparr>"
  by (simp add: calculateFitDimensions_def minus_jsnum_def toDouble_eval)

lemma sample_sums: "Fin 1 + Fin 0 = Fin 1" "Fin 1 + Fin (1 / 2) = Fin (3 / 2)"
  by (simp_all add: toDouble_eval)

lemmas sample_eval = signPDF_def sampleRuntime_def samplePlacement_def
  samplePage_def Let_def sampleDraw_def noNaN_def signatureBox_def
  getPage_def embedImage_def base64ToBuffer_def dataUriPayload_def computeSHA256_def
  drawAndSave_def sample_fit sample_sums

section \<open>The clock\<close>

lemma atTime_fields:
  "result_signedPDFBuffer (atTime t r) = result_signedPDFBuffer r"
  "result_originalHash (atTime t r) = result_originalHash r"
  "result_signedHash (atTime t r) = result_signedHash r"
  "log_timestamp (result_auditLog (atTime t r)) = t"
  by (simp_all add: atTime_def)

lemma drawAndSave_atTime:
  assumes "\<forall>d. PDFDocument_save rt now1 d = PDFDocument_save rt now2 d"
  shows "drawAndSave rt now2 hash doc idx k img sd
           = map_sum id (atTime now2) (drawAndSave rt now1 hash doc idx k img sd)"
  using assms by (simp add: drawAndSave_def atTime_def Let_def split: sum.splits)

lemma signPDF_atTime:
  assumes "PDFDocument_load rt now1 buf = PDFDocument_load rt now2 buf"
    and "\<forall>d. PDFDocument_save rt now1 d = PDFDocument_save rt now2 d"
  shows "signPDF rt now2 buf sd = map_sum id (atTime now2) (signPDF rt now1 buf sd)"
proof -
  note d = drawAndSave_atTime [OF assms(2)]
  show ?thesis
    unfolding signPDF_def Let_def assms(1)
    by (simp add: d split: sum.splits)
qed

lemma drawAndSave_timestamp:
  "drawAndSave rt now hash doc idx k img sd = Inr r \<Longrightarrow> log_timestamp (result_auditLog r) = now"
  by (auto simp add: drawAndSave_def Let_def split: sum.splits if_splits)

lemma signPDF_timestamp:
  "signPDF rt now buf sd = Inr r \<Longrightarrow> log_timestamp (result_auditLog r) = now"
  by (auto simp add: signPDF_def Let_def drawAndSave_timestamp split: sum.splits if_splits)

text \<open>
  C5, as the specification states it, fails. Two calls with the same document, the same
  placement and the same libraries, one second apart, return different audit logs: the
  timestamp of the audit log is read from the clock inside \<open>signPDF\<close>. And with a library
  that writes the time of the parse into the document as its modification date, the two
  calls return different signed buffers.
\<close>

theorem signed_result_depends_on_clock:
  "signPDF sampleRuntime ''2024-01-01T00:00:00.000Z'' [0] samplePlacement
   = Inr \<lparr>result_signedPDFBuffer = [1], result_originalHash = ''0'',
          result_signedHash = ''1'',
          result_auditLog =
            \<lparr>log_timestamp = ''2024-01-01T00:00:00.000Z'', log_originalHash = ''0'',
             log_signedHash = ''1'', log_pageIndex = Fin 0,
             log_pageSize = \<lparr>dims_width = Fin 4, dims_height = Fin 4\<rparr>,
             log_signatureBox =
               \<lparr>rect_x = Fin 1, rect_y = Fin 1, rect_width = Fin 2, rect_height = Fin 2\<rparr>,
             log_imageInfo =
               \<lparr>info_originalWidth = Fin 2, info_originalHeight = Fin 1,
                info_fitWidth = Fin 2, info_fitHeight = Fin 1,
                info_offsetX = Fin 0, info_offsetY = Fin (1 / 2)\<rparr>,
             log_metadata = []\<rparr>\<rparr>
   \<and> signPDF sampleRuntime ''2024-01-01T00:00:01.000Z'' [0] samplePlacement
   = Inr \<lparr>result_signedPDFBuffer = [1], result_originalHash = ''0'',
          result_signedHash = ''1'',
          result_auditLog =
            \<lparr>log_timestamp = ''2024-01-01T00:00:01.000Z'', log_originalHash = ''0'',
             log_signedHash = ''1'', log_pageIndex = Fin 0,
             log_pageSize = \<lparr>dims_width = Fin 4, dims_height = Fin 4\<rparr>,
             log_signatureBox =
               \<lparr>rect_x = Fin 1, rect_y = Fin 1, rect_width = Fin 2, rect_height = Fin 2\<rparr>,
             log_imageInfo =
               \<lparr>info_originalWidth = Fin 2, info_originalHeight = Fin 1,
                info_fitWidth = Fin 2, info_fitHeight = Fin 1,
                info_offsetX = Fin 0, info_offsetY = Fin (1 / 2)\<rparr>,
             log_metadata = []\<rparr>\<rparr>
   \<and> signPDF sampleRuntime ''2024-01-01T00:00:00.000Z'' [0] samplePlacement
     \<noteq> signPDF sampleRuntime ''2024-01-01T00:00:01.000Z'' [0] samplePlacement
   \<and> map_sum id result_signedPDFBuffer
       (signPDF stampingRuntime ''2024-01-01T00:00:00.000Z'' [0] samplePlacement)
     = Inr (map (\<lambda>c. of_nat (of_char c)) ''2024-01-01T00:00:00.000Z'' @ [1])
   \<and> map_sum id result_signedPDFBuffer
       (signPDF stampingRuntime ''2024-01-01T00:00:01.000Z'' [0] samplePlacement)
     = Inr (map (\<lambda>c. of_nat (of_char c)) ''2024-01-01T00:00:01.000Z'' @ [1])
   \<and> map_sum id result_signedPDFBuffer
       (signPDF stampingRuntime ''2024-01-01T00:00:00.000Z'' [0] samplePlacement)
     \<noteq> map_sum id result_signedPDFBuffer
       (signPDF stampingRuntime ''2024-01-01T00:00:01.000Z'' [0] samplePlacement)"
proof -
  note eval = sample_eval
  have a: "signPDF sampleRuntime now [0] samplePlacement
   = Inr \<lparr>result_signedPDFBuffer = [1], result_originalHash = ''0'',
          result_signedHash = ''1'',
          result_auditLog =
            \<lparr>log_timestamp = now, log_originalHash = ''0'',
             log_signedHash = ''1'', log_pageIndex = Fin 0,
             log_pageSize = \<lparr>dims_width = Fin 4, dims_height = Fin 4\<rparr>,
             log_signatureBox =
               \<lparr>rect_x = Fin 1, rect_y = Fin 1, rect_width = Fin 2, rect_height = Fin 2\<rparr>,
             log_imageInfo =
               \<lparr>info_originalWidth = Fin 2, info_originalHeight = Fin 1,
                info_fitWidth = Fin 2, info_fitHeight = Fin 1,
                info_offsetX = Fin 0, info_offsetY = Fin (1 / 2)\<rparr>,
             log_metadata = []\<rparr>\<rparr>" for now
    by (simp add: eval)
  have b: "map_sum id result_signedPDFBuffer (signPDF stampingRuntime now [0] samplePlacement)
     = Inr (map (\<lambda>c. of_nat (of_char c)) now @ [1])" for now
    by (simp add: stampingRuntime_def eval)
  show ?thesis
    unfolding a b by simp
qed

text \<open>
  C5, amended. What the code of \<open>signPDF\<close> itself takes from the clock is the timestamp of
  the audit log, which is the time of the call and is not supplied by the caller. The
  signed buffer and its digest depend on the clock through the library only: when the
  parser returns the same document and the serialiser the same bytes at the times of two
  calls with the same inputs and the same environment, the two calls fail with the same
  error or succeed with the same signed buffer and the same two digests, and their
  results differ at most in the timestamp.
\<close>

theorem clock_enters_timestamp_and_library_calls:
  assumes "PDFDocument_load rt now1 buf = PDFDocument_load rt now2 buf"
    and "\<forall>d. PDFDocument_save rt now1 d = PDFDocument_save rt now2 d"
  shows "signPDF rt now2 buf sd = map_sum id (atTime now2) (signPDF rt now1 buf sd) \<and>
   (signPDF rt now1 buf sd = Inl e \<longrightarrow> signPDF rt now2 buf sd = Inl e) \<and>
   (signPDF rt now1 buf sd = Inr r1 \<longrightarrow>
      (\<exists>r2. signPDF rt now2 buf sd = Inr r2 \<and>
            result_signedPDFBuffer r2 = result_signedPDFBuffer r1 \<and>
            result_originalHash r2 = result_originalHash r1 \<and>
            result_signedHash r2 = result_signedHash r1 \<and>
            log_timestamp (result_auditLog r1) = now1 \<and>
            log_timestamp (result_auditLog r2) = now2))"
proof (intro conjI impI)
  show "signPDF rt now2 buf sd = map_sum id (atTime now2) (signPDF rt now1 buf sd)"
    using assms by (rule signPDF_atTime)
next
  assume "signPDF rt now1 buf sd = Inl e"
  then show "signPDF rt now2 buf sd = Inl e"
    using signPDF_atTime [OF assms, of sd] by simp
next
  assume a: "signPDF rt now1 buf sd = Inr r1"
  then have "signPDF rt now2 buf sd = Inr (atTime now2 r1)"
    using signPDF_atTime [OF assms, of sd] by simp
  then show "\<exists>r2. signPDF rt now2 buf sd = Inr r2 \<and>
            result_signedPDFBuffer r2 = result_signedPDFBuffer r1 \<and>
            result_originalHash r2 = result_originalHash r1 \<and>
            result_signedHash r2 = result_signedHash r1 \<and>
            log_timestamp (result_auditLog r1) = now1 \<and>
            log_timestamp (result_auditLog r2) = now2"
    using a by (simp add: atTime_fields signPDF_timestamp)
qed

theorem clock_enters_timestamp_and_library_calls_witness:
  "signPDF sampleRuntime ''2024-01-01T00:00:01.000Z'' [0]
     (samplePlacement\<lparr>sig_image := ''/9j/''\<rparr>)
   = Inl (embedFailed ''not a PNG'')
   \<and> (\<exists>r2. signPDF sampleRuntime ''2024-01-01T00:00:01.000Z'' [0] samplePlacement = Inr r2 \<and>
          result_signedPDFBuffer r2 = [1] \<and>
          result_originalHash r2 = ''0'' \<and>
          result_signedHash r2 = ''1'' \<and>
          log_timestamp (result_auditLog r2) = ''2024-01-01T00:00:01.000Z'')"
proof -
  let ?r1 = "\<lparr>result_signedPDFBuffer = [1], result_originalHash = ''0'',
          result_signedHash = ''1'',
          result_auditLog =
            \<lparr>log_timestamp = ''2024-01-01T00:00:00.000Z'', log_originalHash = ''0'',
             log_signedHash = ''1'', log_pageIndex = Fin 0,
             log_pageSize = \<lparr>dims_width = Fin 4, dims_height = Fin 4\<rparr>,
             log_signatureBox =
               \<lparr>rect_x = Fin 1, rect_y = Fin 1, rect_width = Fin 2, rect_height = Fin 2\<rparr>,
             log_imageInfo =
               \<lparr>info_originalWidth = Fin 2, info_originalHeight = Fin 1,
                info_fitWidth = Fin 2, info_fitHeight = Fin 1,
                info_offsetX = Fin 0, info_offsetY = Fin (1 / 2)\<rparr>,
             log_metadata = []\<rparr>\<rparr>"
  have a: "signPDF sampleRuntime ''2024-01-01T00:00:00.000Z'' [0] samplePlacement = Inr ?r1"
    by (simp add: sample_eval)
  have b: "signPDF sampleRuntime ''2024-01-01T00:00:00.000Z'' [0]
             (samplePlacement\<lparr>sig_image := ''/9j/''\<rparr>) = Inl (embedFailed ''not a PNG'')"
    by (simp add: sample_eval)
  have l: "PDFDocument_load sampleRuntime ''2024-01-01T00:00:00.000Z'' [0]
             = PDFDocument_load sampleRuntime ''2024-01-01T00:00:01.000Z'' [0]"
    and s: "\<forall>d. PDFDocument_save sampleRuntime ''2024-01-01T00:00:00.000Z'' d
             = PDFDocument_save sampleRuntime ''2024-01-01T00:00:01.000Z'' d"
    by (simp_all add: sampleRuntime_def)
  show ?thesis
    using clock_enters_timestamp_and_library_calls
        [OF l s, where sd = samplePlacement and ?r1.0 = ?r1]
      clock_enters_timestamp_and_library_calls
        [OF l s, where sd = "samplePlacement\<lparr>sig_image := ''/9j/''\<rparr>"
           and e = "embedFailed ''not a PNG''"]
      a b
    by (simp add: atTime_fields)
qed

section \<open>signPDFMultiple\<close>

lemma signLoop_overlayImages_spec:
  "signLoop rt clock i buf trail sigs =
     (case overlayImages_spec rt clock i buf sigs of
        Inl e \<Rightarrow> Inl e
      | Inr (finalBuffer, fragments) \<Rightarrow> Inr (finalBuffer, trail @ fragments))"
proof (induction sigs arbitrary: i buf trail)
  case Nil
  then show ?case by simp
next
  case (Cons s sigs)
  show ?case
  proof (cases "signPDF rt (clock i) buf s")
    case (Inl e)
    then show ?thesis by simp
  next
    case (Inr step)
    then show ?thesis
      by (simp add: Cons.IH split: sum.splits prod.splits)
  qed
qed

lemma overlayImages_spec_length:
  "overlayImages_spec rt clock i buf sigs = Inr (finalBuffer, fragments)
     \<Longrightarrow> length fragments = length sigs"
proof (induction sigs arbitrary: i buf fragments)
  case Nil
  then show ?case by simp
next
  case (Cons s sigs)
  then show ?case
    by (auto split: sum.splits prod.splits)
qed

text \<open>
  C8. \<open>signPDFMultiple\<close> is the sequential fold of \<open>signPDF\<close> over the placements, each
  step reading the buffer the step before wrote. When every step succeeds it returns the
  buffer of the last step, the digest of the buffer it was given, the digest of the buffer
  it returns, and the audit logs of the steps in the order of the placements, one for each
  placement; when a step fails, its error is the error of the whole.
\<close>

theorem signPDFMultiple_is_sequential_fold:
  "signPDFMultiple rt clock originalPDFBuffer signatures =
     (case overlayImages_spec rt clock 0 originalPDFBuffer signatures of
        Inl e \<Rightarrow> Inl e
      | Inr (finalBuffer, fragments) \<Rightarrow>
         Inr \<lparr>multi_signedPDFBuffer = finalBuffer,
               multi_originalHash = computeSHA256 rt originalPDFBuffer,
               multi_signedHash = computeSHA256 rt finalBuffer,
               multi_auditTrail = fragments\<rparr>) \<and>
   (signPDFMultiple rt clock originalPDFBuffer signatures = Inr r \<longrightarrow>
      multi_originalHash r = computeSHA256 rt originalPDFBuffer \<and>
      multi_signedHash r = computeSHA256 rt (multi_signedPDFBuffer r) \<and>
      length (multi_auditTrail r) = length signatures)"
proof
  show eq: "signPDFMultiple rt clock originalPDFBuffer signatures =
     (case overlayImages_spec rt clock 0 originalPDFBuffer signatures of
        Inl e \<Rightarrow> Inl e
      | Inr (finalBuffer, fragments) \<Rightarrow>
         Inr \<lparr>multi_signedPDFBuffer = finalBuffer,
               multi_originalHash = computeSHA256 rt originalPDFBuffer,
               multi_signedHash = computeSHA256 rt finalBuffer,
               multi_auditTrail = fragments\<rparr>)"
    by (simp add: signPDFMultiple_def Let_def signLoop_overlayImages_spec
        split: sum.splits prod.splits)
  show "signPDFMultiple rt clock originalPDFBuffer signatures = Inr r \<longrightarrow>
      multi_originalHash r = computeSHA256 rt originalPDFBuffer \<and>
      multi_signedHash r = computeSHA256 rt (multi_signedPDFBuffer r) \<and>
      length (multi_auditTrail r) = length signatures"
    unfolding eq
    by (auto split: sum.splits prod.splits dest: overlayImages_spec_length)
qed


theorem signPDFMultiple_is_sequential_fold_witness:
  "\<exists>r. signPDFMultiple sampleRuntime
          (\<lambda>i. if i = 0 then ''2024-01-01T00:00:00.000Z'' else ''2024-01-01T00:00:01.000Z'')
          [0, 0] [samplePlacement, samplePlacement\<lparr>sig_pageIndex := Some (Fin 1)\<rparr>] = Inr r \<and>
        multi_signedPDFBuffer r = [0, 1] \<and>
        multi_originalHash r = ''00'' \<and>
        multi_signedHash r = ''01'' \<and>
        map log_originalHash (multi_auditTrail r) = [''00'', ''10''] \<and>
        map log_pageIndex (multi_auditTrail r) = [Fin 0, Fin 1] \<and>
        map log_timestamp (multi_auditTrail r)
          = [''2024-01-01T00:00:00.000Z'', ''2024-01-01T00:00:01.000Z''] \<and>
        length (multi_auditTrail r) = 2"
proof -
  let ?clock = "\<lambda>i::nat. if i = 0 then ''2024-01-01T00:00:00.000Z''
                         else ''2024-01-01T00:00:01.000Z''"
  let ?sigs = "[samplePlacement, samplePlacement\<lparr>sig_pageIndex := Some (Fin 1)\<rparr>]"
  have s1: "signPDF sampleRuntime ''2024-01-01T00:00:00.000Z'' [0, 0] samplePlacement
    = Inr \<lparr>result_signedPDFBuffer = [1, 0], result_originalHash = ''00'',
          result_signedHash = ''10'',
          result_auditLog =
            \<lparr>log_timestamp = ''2024-01-01T00:00:00.000Z'', log_originalHash = ''00'',
             log_signedHash = ''10'', log_pageIndex = Fin 0,
             log_pageSize = \<lparr>dims_width = Fin 4, dims_height = Fin 4\<rparr>,
             log_signatureBox =
               \<lparr>rect_x = Fin 1, rect_y = Fin 1, rect_width = Fin 2, rect_height = Fin 2\<rparr>,
             log_imageInfo =
               \<lparr>info_originalWidth = Fin 2, info_originalHeight = Fin 1,
                info_fitWidth = Fin 2, info_fitHeight = Fin 1,
                info_offsetX = Fin 0, info_offsetY = Fin (1 / 2)\<rparr>,
             log_metadata = []\<rparr>\<rparr>"
    by (simp add: sample_eval)
  have s2: "signPDF sampleRuntime ''2024-01-01T00:00:01.000Z'' [1, 0]
              (samplePlacement\<lparr>sig_pageIndex := Some (Fin 1)\<rparr>)
    = Inr \<lparr>result_signedPDFBuffer = [0, 1], result_originalHash = ''10'',
          result_signedHash = ''01'',
          result_auditLog =
            \<lparr>log_timestamp = ''2024-01-01T00:00:01.000Z'', log_originalHash = ''10'',
             log_signedHash = ''01'', log_pageIndex = Fin 1,
             log_pageSize = \<lparr>dims_width = Fin 4, dims_height = Fin 4\<rparr>,
             log_signatureBox =
               \<lparr>rect_x = Fin 1, rect_y = Fin 1, rect_width = Fin 2, rect_height = Fin 2\<rparr>,
             log_imageInfo =
               \<lparr>info_originalWidth = Fin 2, info_originalHeight = Fin 1,
                info_fitWidth = Fin 2, info_fitHeight = Fin 1,
                info_offsetX = Fin 0, info_offsetY = Fin (1 / 2)\<rparr>,
             log_metadata = []\<rparr>\<rparr>"
    by (simp add: sample_eval)
  have h: "computeSHA256 sampleRuntime [0, 0] = ''00''"
    "computeSHA256 sampleRuntime [0, 1] = ''01''"
    by (simp_all add: computeSHA256_def sampleRuntime_def)
  show ?thesis
    using signPDFMultiple_is_sequential_fold
        [where rt = sampleRuntime and clock = ?clock and originalPDFBuffer = "[0, 0]"
           and signatures = ?sigs]
    by (simp add: s1 s2 h)
qed

end
